theory Spec2Isabelle
  imports Complex_Main "HOL-Library.Char_ord" "HOL-Library.List_Lexorder" "HOL-Library.Sublist"
begin

section \<open>Data model\<close>

text \<open>
  The load-test driver \<^verbatim>\<open>python-load-test.py\<close>. Python floats (clock readings, response
  times, the random draw) are modelled as real numbers, Python integers as \<open>int\<close>.
  Everything the program gets from outside (random draws, clock readings, what the HTTP
  client does, which coroutine the event loop resumes next) is an explicit argument.
\<close>

text \<open>
  The exceptions that occur. \<open>is_Exception\<close> tells the subclasses of Python's
  \<^verbatim>\<open>Exception\<close>, which are what \<^verbatim>\<open>except Exception\<close> catches, from the classes that
  derive from \<^verbatim>\<open>BaseException\<close> only.
\<close>

datatype exn =
    ClientError | TimeoutError | OSError
  | ValueError | ZeroDivisionError | StatisticsError | IndexError
  | CancelledError | KeyboardInterrupt | SystemExit

fun is_Exception :: "exn \<Rightarrow> bool" where
  "is_Exception CancelledError = False"
| "is_Exception KeyboardInterrupt = False"
| "is_Exception SystemExit = False"
| "is_Exception _ = True"

text \<open>The dataclass \<^verbatim>\<open>TestResult\<close>.\<close>

record TestResult =
  endpoint :: string
  status_code :: int
  response_time_ms :: real
  success :: bool

text \<open>
  What \<^verbatim>\<open>async with session.get(...) as response\<close> (or \<^verbatim>\<open>session.post\<close>) does: it
  yields a response with a status, or it raises.
\<close>

datatype transport = Response int | Raises exn

section \<open>Endpoint operations\<close>

text \<open>
  Each operation reads the clock (\<open>start_time\<close>), performs the transport call, and reads
  the clock again (\<open>t\<close>) in the branch it ends in. The request itself (URL, headers, the
  random JSON payload of \<^verbatim>\<open>create_product\<close>) only reaches the transport and is left out.
  \<open>Inl e\<close> is an exception that leaves the coroutine.
\<close>

definition get_all_products :: "string \<Rightarrow> real \<Rightarrow> transport \<Rightarrow> real \<Rightarrow> exn + TestResult" where
  "get_all_products tenant start_time tr t =
     (case tr of
        Response status \<Rightarrow>
          Inr \<lparr>endpoint = ''GET /api/products'', status_code = status,
               response_time_ms = (t - start_time) * 1000, success = (status = 200)\<rparr>
      | Raises e \<Rightarrow>
          if is_Exception e
          then Inr \<lparr>endpoint = ''GET /api/products'', status_code = 0,
                    response_time_ms = (t - start_time) * 1000, success = False\<rparr>
          else Inl e)"

definition get_product_by_id ::
    "string \<Rightarrow> int \<Rightarrow> real \<Rightarrow> transport \<Rightarrow> real \<Rightarrow> exn + TestResult" where
  "get_product_by_id tenant product_id start_time tr t =
     (case tr of
        Response status \<Rightarrow>
          Inr \<lparr>endpoint = ''GET /api/products/{id}'', status_code = status,
               response_time_ms = (t - start_time) * 1000, success = (status = 200)\<rparr>
      | Raises e \<Rightarrow>
          if is_Exception e
          then Inr \<lparr>endpoint = ''GET /api/products/{id}'', status_code = 0,
                    response_time_ms = (t - start_time) * 1000, success = False\<rparr>
          else Inl e)"

definition create_product :: "string \<Rightarrow> real \<Rightarrow> transport \<Rightarrow> real \<Rightarrow> exn + TestResult" where
  "create_product tenant start_time tr t =
     (case tr of
        Response status \<Rightarrow>
          Inr \<lparr>endpoint = ''POST /api/products'', status_code = status,
               response_time_ms = (t - start_time) * 1000, success = (status = 201)\<rparr>
      | Raises e \<Rightarrow>
          if is_Exception e
          then Inr \<lparr>endpoint = ''POST /api/products'', status_code = 0,
                    response_time_ms = (t - start_time) * 1000, success = False\<rparr>
          else Inl e)"

section \<open>The body of a unit of work\<close>

text \<open>
  What one resumption of a coroutine consumes from outside: the index \<^verbatim>\<open>random.choice\<close>
  picks, the value of \<^verbatim>\<open>random.random()\<close>, the value of \<^verbatim>\<open>random.randint(1, 1000)\<close>,
  the reading of \<^verbatim>\<open>time.time()\<close>, and the behaviour of the transport.
\<close>

record draw =
  tenant_choice :: nat
  operation :: real
  product_id :: int
  now :: real
  reply :: transport

definition tenants :: "string list" where
  "tenants = [''company-a'', ''company-b'', ''company-c'']"

definition random_choice :: "nat \<Rightarrow> 'a list \<Rightarrow> 'a" where
  "random_choice k xs = xs ! (k mod length xs)"

text \<open>The method \<^verbatim>\<open>bounded_request\<close> calls, with its arguments (lines 157 to 169).\<close>

datatype call =
    Get_all_products string
  | Get_product_by_id string int
  | Create_product string

definition choose_call :: "draw \<Rightarrow> call" where
  "choose_call d =
     (let tenant = random_choice (tenant_choice d) tenants in
      if operation d < 0.5 then Get_all_products tenant
      else if operation d < 0.8 then Get_product_by_id tenant (product_id d)
      else Create_product tenant)"

fun invoke :: "call \<Rightarrow> real \<Rightarrow> transport \<Rightarrow> real \<Rightarrow> exn + TestResult" where
  "invoke (Get_all_products tenant) start_time tr t = get_all_products tenant start_time tr t"
| "invoke (Get_product_by_id tenant pid) start_time tr t =
     get_product_by_id tenant pid start_time tr t"
| "invoke (Create_product tenant) start_time tr t = create_product tenant start_time tr t"

section \<open>The scenario runner\<close>

text \<open>
  \<^verbatim>\<open>run_scenario\<close> creates \<open>num_requests\<close> coroutines \<^verbatim>\<open>bounded_request\<close> and a
  semaphore, and \<^verbatim>\<open>asyncio.gather\<close> runs them on the single-threaded event loop. Each
  coroutine is a small state machine; its control state is

  \<^item> \<open>Created\<close>: not yet at \<^verbatim>\<open>async with semaphore\<close>;
  \<^item> \<open>Waiting\<close>: suspended in \<^verbatim>\<open>semaphore.acquire()\<close>;
  \<^item> \<open>InFlight c t\<close>: holds a slot and is suspended in the transport call of method
    \<open>c\<close>, which read the clock \<open>t\<close> when it started;
  \<^item> \<open>Got r\<close>: the operation returned \<open>r\<close> (line 171 comes next);
  \<^item> \<open>Appended\<close>: \<^verbatim>\<open>self.results.append(result)\<close> is done, the \<^verbatim>\<open>async with\<close> block is
    about to be left;
  \<^item> \<open>Done\<close>: the coroutine returned;
  \<^item> \<open>Failed e\<close>: the coroutine ended with exception \<open>e\<close>.

  The event loop runs one coroutine at a time, from one suspension to the next. The model
  lets it switch after every statement as well, and lets any task that is at the semaphore
  take a free slot, whatever the order of arrival; both only add interleavings.
\<close>

datatype pc =
    Created | Waiting | InFlight call real | Got TestResult | Appended | Done | Failed exn

text \<open>History of one scenario (not program state): what each unit of work did, in order.\<close>

datatype event = Acquire nat | Append nat TestResult | Release nat

text \<open>History of the whole run (not program state).\<close>

datatype sevent =
    SessionCreated | SessionClosed | ScenarioStarted string | ResultsPrinted string

text \<open>
  The runner object together with the locals of \<^verbatim>\<open>run_scenario\<close> that the coroutines share.
  \<open>session = None\<close>: the attribute \<^verbatim>\<open>_session\<close> does not exist; \<open>Some c\<close>: it exists and
  \<^verbatim>\<open>_session.closed\<close> is \<open>c\<close>. \<open>semaphore\<close> is the semaphore's counter.
\<close>

record runner =
  results :: "TestResult list"
  session :: "bool option"
  semaphore :: int
  tasks :: "pc list"
  trace :: "event list"
  log :: "sevent list"

definition get_session :: "runner \<Rightarrow> runner" where
  "get_session s =
     (if session s = None \<or> session s = Some True
      then s\<lparr>session := Some False, log := log s @ [SessionCreated]\<rparr>
      else s)"


text \<open>
  Task \<open>i\<close> gets a slot and runs up to the transport call: the semaphore is decremented,
  the tenant and the operation are drawn, the session is fetched (created if need be), the
  chosen method reads the clock and issues the request.
\<close>

definition enter :: "nat \<Rightarrow> draw \<Rightarrow> runner \<Rightarrow> runner" where
  "enter i d s =
     (let s1 = s\<lparr>semaphore := semaphore s - 1, trace := trace s @ [Acquire i]\<rparr>;
          s2 = get_session s1
      in s2\<lparr>tasks := (tasks s2)[i := InFlight (choose_call d) (now d)]\<rparr>)"

text \<open>One step of task \<open>i\<close>; \<open>None\<close> when the task cannot move.\<close>

definition task_step :: "nat \<Rightarrow> draw \<Rightarrow> runner \<Rightarrow> runner option" where
  "task_step i d s =
     (if length (tasks s) \<le> i then None
      else case tasks s ! i of
        Created \<Rightarrow>
          if 0 < semaphore s then Some (enter i d s)
          else Some (s\<lparr>tasks := (tasks s)[i := Waiting]\<rparr>)
      | Waiting \<Rightarrow> if 0 < semaphore s then Some (enter i d s) else None
      | InFlight c start_time \<Rightarrow>
          (case invoke c start_time (reply d) (now d) of
             Inr r \<Rightarrow> Some (s\<lparr>tasks := (tasks s)[i := Got r]\<rparr>)
           | Inl e \<Rightarrow>
               Some (s\<lparr>semaphore := semaphore s + 1, tasks := (tasks s)[i := Failed e],
                        trace := trace s @ [Release i]\<rparr>))
      | Got r \<Rightarrow>
          Some (s\<lparr>results := results s @ [r], tasks := (tasks s)[i := Appended],
                   trace := trace s @ [Append i r]\<rparr>)
      | Appended \<Rightarrow>
          Some (s\<lparr>semaphore := semaphore s + 1, tasks := (tasks s)[i := Done],
                   trace := trace s @ [Release i]\<rparr>)
      | Done \<Rightarrow> None
      | Failed e \<Rightarrow> None)"

text \<open>A schedule says which task moves next and what it gets from outside.\<close>

fun exec :: "(nat \<times> draw) list \<Rightarrow> runner \<Rightarrow> runner option" where
  "exec [] s = Some s"
| "exec ((i, d) # rest) s =
     (case task_step i d s of None \<Rightarrow> None | Some s' \<Rightarrow> exec rest s')"

text \<open>
  \<^verbatim>\<open>close_session\<close>. \<^verbatim>\<open>await self._session.close()\<close> closes the session and is a
  suspension point: while it is awaited, the units of work that are still there move on,
  as \<open>closing\<close> says.
\<close>

definition close_session :: "(nat \<times> draw) list \<Rightarrow> runner \<Rightarrow> runner option" where
  "close_session closing s =
     (if session s \<noteq> None
      then exec closing (s\<lparr>session := Some True, log := log s @ [SessionClosed]\<rparr>)
      else Some s)"

fun holds_slot :: "pc \<Rightarrow> bool" where
  "holds_slot (InFlight c t) = True"
| "holds_slot (Got r) = True"
| "holds_slot Appended = True"
| "holds_slot _ = False"

definition in_flight :: "runner \<Rightarrow> nat" where
  "in_flight s = length (filter holds_slot (tasks s))"

fun failure :: "pc list \<Rightarrow> exn option" where
  "failure [] = None"
| "failure (Failed e # ps) = Some e"
| "failure (p # ps) = failure ps"

text \<open>
  \<^verbatim>\<open>await asyncio.gather(*tasks)\<close>. It returns once all tasks are done. When a task
  fails, the awaiting \<^verbatim>\<open>run_scenario\<close> is resumed with the exception of the first task
  that failed (\<open>raised\<close>), but only when the event loop gets to it: the other units of
  work are not stopped and move on in the meantime, as the schedule says, and they are
  still there afterwards. \<open>None\<close>: the schedule ends, or names a task that cannot move,
  before \<^verbatim>\<open>run_scenario\<close> is resumed.
\<close>

fun gather ::
    "exn option \<Rightarrow> (nat \<times> draw) list \<Rightarrow> runner \<Rightarrow> (exn option \<times> runner) option" where
  "gather raised [] s =
     (case raised of
        Some e \<Rightarrow> Some (Some e, s)
      | None \<Rightarrow> if list_all (\<lambda>p. p = Done) (tasks s) then Some (None, s) else None)"
| "gather raised ((i, d) # rest) s =
     (if raised = None \<and> list_all (\<lambda>p. p = Done) (tasks s) then Some (None, s)
      else case task_step i d s of
             None \<Rightarrow> None
           | Some s' \<Rightarrow>
               gather (if raised = None then failure (tasks s') else raised) rest s')"

section \<open>The statistics reporter\<close>

definition bind_exn :: "exn + 'a \<Rightarrow> ('a \<Rightarrow> exn + 'b) \<Rightarrow> exn + 'b" where
  "bind_exn m f = (case m of Inl e \<Rightarrow> Inl e | Inr x \<Rightarrow> f x)"

text \<open>List indexing with a non-negative index.\<close>

definition item :: "'a list \<Rightarrow> nat \<Rightarrow> exn + 'a" where
  "item xs k = (if k < length xs then Inr (xs ! k) else Inl IndexError)"

text \<open>\<^verbatim>\<open>statistics.mean\<close>, and the builtins \<^verbatim>\<open>min\<close> and \<^verbatim>\<open>max\<close> on a list.\<close>

definition mean :: "real list \<Rightarrow> exn + real" where
  "mean xs = (if xs = [] then Inl StatisticsError else Inr (sum_list xs / real (length xs)))"

definition py_min :: "real list \<Rightarrow> exn + real" where
  "py_min xs = (case xs of [] \<Rightarrow> Inl ValueError | x # rest \<Rightarrow> Inr (fold min rest x))"

definition py_max :: "real list \<Rightarrow> exn + real" where
  "py_max xs = (case xs of [] \<Rightarrow> Inl ValueError | x # rest \<Rightarrow> Inr (fold max rest x))"

text \<open>
  \<^verbatim>\<open>statistics.quantiles(data, n=n)\<close> of the Python standard library, with its default
  \<^verbatim>\<open>method='exclusive'\<close>:
  \<^verbatim>\<open>
    data = sorted(data); ld = len(data)
    if ld < 2: raise StatisticsError
    m = ld + 1
    for i in range(1, n):
        j = i * m // n
        j = 1 if j < 1 else ld-1 if j > ld-1 else j
        delta = i*m - j*n
        interpolated = (data[j - 1] * (n - delta) + data[j] * delta) / n
  \<close>
\<close>

definition cut_point :: "real list \<Rightarrow> int \<Rightarrow> int \<Rightarrow> real" where
  "cut_point data n i =
     (let ld = int (length data);
          m = ld + 1;
          j0 = i * m div n;
          j = (if j0 < 1 then 1 else if j0 > ld - 1 then ld - 1 else j0);
          delta = i * m - j * n
      in (data ! nat (j - 1) * of_int (n - delta) + data ! nat j * of_int delta) / of_int n)"

definition quantiles :: "real list \<Rightarrow> int \<Rightarrow> exn + real list" where
  "quantiles xs n =
     (if n < 1 then Inl StatisticsError
      else let data = sort xs in
        if length data < 2 then Inl StatisticsError
        else Inr (map (cut_point data n) [1..n - 1]))"

text \<open>What \<^verbatim>\<open>_print_results\<close> prints.\<close>

record report =
  successful :: nat
  failed :: nat
  success_rate :: real
  req_per_sec :: real
  avg_response :: real
  p50_response :: real
  p95_response :: real
  min_response :: real
  max_response :: real
  by_endpoint :: "(string \<times> nat \<times> nat \<times> real) list"

definition endpoint_line :: "TestResult list \<Rightarrow> string \<Rightarrow> string \<times> nat \<times> nat \<times> real" where
  "endpoint_line rs ep =
     (let endpoint_results = filter (\<lambda>r. endpoint r = ep) rs;
          endpoint_success = filter success endpoint_results
      in (ep, length endpoint_success, length endpoint_results,
          real (length endpoint_success) / real (length endpoint_results) * 100))"

definition print_results :: "TestResult list \<Rightarrow> int \<Rightarrow> real \<Rightarrow> exn + report" where
  "print_results rs num_requests total_time =
     (let successful_results = filter success rs;
          failed_results = filter (\<lambda>r. \<not> success r) rs
      in if num_requests = 0 then Inl ZeroDivisionError
      else if total_time = 0 then Inl ZeroDivisionError
      else
        let response_times = map response_time_ms successful_results in
        bind_exn (if response_times \<noteq> [] then mean response_times else Inr 0) (\<lambda>avg.
        bind_exn (if 2 \<le> length response_times
                  then bind_exn (quantiles response_times 2) (\<lambda>q. item q 0) else Inr 0) (\<lambda>p50.
        bind_exn (if 20 \<le> length response_times
                  then bind_exn (quantiles response_times 20) (\<lambda>q. item q 18) else Inr 0) (\<lambda>p95.
        bind_exn (if response_times \<noteq> [] then py_min response_times else Inr 0) (\<lambda>mn.
        bind_exn (if response_times \<noteq> [] then py_max response_times else Inr 0) (\<lambda>mx.
        Inr \<lparr>successful = length successful_results,
             failed = length failed_results,
             success_rate = real (length successful_results) / of_int num_requests * 100,
             req_per_sec = of_int num_requests / total_time,
             avg_response = avg, p50_response = p50, p95_response = p95,
             min_response = mn, max_response = mx,
             by_endpoint = map (endpoint_line rs) (sort (remdups (map endpoint rs)))\<rparr>))))))"

section \<open>Scenarios and the sequencer\<close>

text \<open>
  \<^verbatim>\<open>run_scenario\<close>. \<open>sched\<close> is what the event loop and the outside world do while
  \<^verbatim>\<open>gather\<close> is awaited; \<open>t0\<close> and \<open>t1\<close> are the two clock readings. The result is the
  exception raised, if any, and the runner at that moment (with the units of work a raising
  \<^verbatim>\<open>gather\<close> left behind); \<open>None\<close> when \<open>sched\<close> does not bring \<^verbatim>\<open>gather\<close> to its end. \<^verbatim>\<open>asyncio.Semaphore\<close> raises \<^verbatim>\<open>ValueError\<close> on a negative
  initial value. \<open>clear_results\<close> is the state after line 149, \<open>create_tasks\<close> the
  state in which \<^verbatim>\<open>gather\<close> is called.
\<close>

definition clear_results :: "string \<Rightarrow> runner \<Rightarrow> runner" where
  "clear_results scenario_name self =
     self\<lparr>results := [], trace := [], tasks := [],
          log := log self @ [ScenarioStarted scenario_name]\<rparr>"

definition create_tasks :: "int \<Rightarrow> int \<Rightarrow> runner \<Rightarrow> runner" where
  "create_tasks num_requests concurrency s =
     s\<lparr>semaphore := concurrency, tasks := replicate (nat num_requests) Created\<rparr>"

definition run_scenario ::
    "string \<Rightarrow> int \<Rightarrow> int \<Rightarrow> real \<Rightarrow> (nat \<times> draw) list \<Rightarrow> real \<Rightarrow> runner
      \<Rightarrow> (exn option \<times> runner) option" where
  "run_scenario scenario_name num_requests concurrency t0 sched t1 self =
     (let s0 = clear_results scenario_name self
      in if concurrency < 0 then Some (Some ValueError, s0)
      else
        case gather None sched (create_tasks num_requests concurrency s0) of
          None \<Rightarrow> None
        | Some (Some e, s2) \<Rightarrow> Some (Some e, s2)
        | Some (None, s2) \<Rightarrow>
            (case print_results (results s2) num_requests (t1 - t0) of
               Inl e \<Rightarrow> Some (Some e, s2)
             | Inr rep \<Rightarrow>
                 Some (None, s2\<lparr>log := log s2 @ [ResultsPrinted scenario_name]\<rparr>)))"

text \<open>\<^verbatim>\<open>LoadTestRunner()\<close>: no results, no session yet.\<close>

definition new_runner :: runner where
  "new_runner = \<lparr>results = [], session = None, semaphore = 0, tasks = [], trace = [],
                 log = []\<rparr>"

text \<open>One scenario after the other; an exception skips the rest of the \<^verbatim>\<open>try\<close> block.\<close>

definition and_then ::
    "(exn option \<times> runner) option \<Rightarrow> (runner \<Rightarrow> (exn option \<times> runner) option)
      \<Rightarrow> (exn option \<times> runner) option" where
  "and_then m f =
     (case m of
        None \<Rightarrow> None
      | Some (Some e, s) \<Rightarrow> Some (Some e, s)
      | Some (None, s) \<Rightarrow> f s)"

text \<open>
  What the outside world contributes to one scenario. \<^verbatim>\<open>main\<close> gets one world per
  scenario and \<open>closing\<close>, what the units of work still do while the \<^verbatim>\<open>finally\<close> block
  awaits \<^verbatim>\<open>close_session\<close>. (What \<^verbatim>\<open>asyncio.run\<close> does after \<^verbatim>\<open>main\<close>, cancelling the
  tasks that are left, is not part of the model.)
\<close>

record world =
  started :: real
  schedule :: "(nat \<times> draw) list"
  ended :: real

definition main ::
    "world \<Rightarrow> world \<Rightarrow> world \<Rightarrow> world \<Rightarrow> (nat \<times> draw) list
      \<Rightarrow> (exn option \<times> runner) option" where
  "main w1 w2 w3 w4 closing =
     (let runner = new_runner;
          body =
            and_then (run_scenario ''Low Concurrency Test'' 100 10
                        (started w1) (schedule w1) (ended w1) runner) (\<lambda>runner.
            and_then (run_scenario ''Medium Concurrency Test'' 500 50
                        (started w2) (schedule w2) (ended w2) runner) (\<lambda>runner.
            and_then (run_scenario ''High Concurrency Test'' 1000 100
                        (started w3) (schedule w3) (ended w3) runner) (\<lambda>runner.
            run_scenario ''Stress Test'' 2000 200
                        (started w4) (schedule w4) (ended w4) runner)))
      in case body of
           None \<Rightarrow> None
         | Some (e, runner) \<Rightarrow>
             (case close_session closing runner of
                None \<Rightarrow> None
              | Some runner \<Rightarrow> Some (e, runner)))"

section \<open>Auxiliary definitions for the statements\<close>

text \<open>The response times of the successful outcomes (lines 199 and 205).\<close>

definition latencies :: "TestResult list \<Rightarrow> real list" where
  "latencies rs = map response_time_ms (filter success rs)"

text \<open>
  The median in the specification's words: zero below two samples, otherwise the middle of
  the sorted samples, the lower of the two middle values when their number is even.
\<close>

definition spec_median :: "real list \<Rightarrow> real" where
  "spec_median xs = (if length xs < 2 then 0 else sort xs ! ((length xs - 1) div 2))"

text \<open>The outcomes appended according to a history, each with the unit that appended it.\<close>

fun appended :: "event list \<Rightarrow> (nat \<times> TestResult) list" where
  "appended [] = []"
| "appended (Append i r # es) = (i, r) # appended es"
| "appended (e # es) = appended es"

fun is_append :: "nat \<Rightarrow> event \<Rightarrow> bool" where
  "is_append i (Append j r) = (i = j)"
| "is_append i e = False"

text \<open>What happened before, and from, the append of unit \<open>i\<close>.\<close>

definition before_append :: "nat \<Rightarrow> event list \<Rightarrow> event list" where
  "before_append i es = takeWhile (\<lambda>e. \<not> is_append i e) es"

definition from_append :: "nat \<Rightarrow> event list \<Rightarrow> event list" where
  "from_append i es = dropWhile (\<lambda>e. \<not> is_append i e) es"

text \<open>The scenario events of the run's history.\<close>

fun is_scenario_event :: "sevent \<Rightarrow> bool" where
  "is_scenario_event (ScenarioStarted n) = True"
| "is_scenario_event (ResultsPrinted n) = True"
| "is_scenario_event e = False"

definition scenario_events :: "sevent list \<Rightarrow> sevent list" where
  "scenario_events es = filter is_scenario_event es"

text \<open>Invariants of the scheduler.\<close>

definition slots_inv :: "int \<Rightarrow> runner \<Rightarrow> bool" where
  "slots_inv c s \<longleftrightarrow> 0 \<le> semaphore s \<and> semaphore s + int (in_flight s) = c"

fun has_appended :: "pc \<Rightarrow> bool" where
  "has_appended Appended = True"
| "has_appended Done = True"
| "has_appended p = False"

fun has_released :: "pc \<Rightarrow> bool" where
  "has_released Done = True"
| "has_released (Failed e) = True"
| "has_released p = False"

fun has_started :: "pc \<Rightarrow> bool" where
  "has_started Created = False"
| "has_started Waiting = False"
| "has_started p = True"

definition collect_inv :: "runner \<Rightarrow> bool" where
  "collect_inv s \<longleftrightarrow>
     results s = map snd (appended (trace s))
   \<and> distinct (map fst (appended (trace s)))
   \<and> set (map fst (appended (trace s))) =
       {i. i < length (tasks s) \<and> has_appended (tasks s ! i)}"

definition order_inv :: "runner \<Rightarrow> bool" where
  "order_inv s \<longleftrightarrow>
     (\<forall>i. Release i \<in> set (trace s) \<longleftrightarrow> i < length (tasks s) \<and> has_released (tasks s ! i))
   \<and> (\<forall>i. i \<in> set (map fst (appended (trace s))) \<longrightarrow>
          Release i \<notin> set (before_append i (trace s)))"

definition session_inv :: "runner \<Rightarrow> bool" where
  "session_inv s \<longleftrightarrow>
     count_list (log s) SessionClosed = 0
   \<and> (session s = None \<and> count_list (log s) SessionCreated = 0
      \<or> session s = Some False \<and> count_list (log s) SessionCreated = 1)"

definition started_inv :: "runner \<Rightarrow> bool" where
  "started_inv s \<longleftrightarrow> (list_ex has_started (tasks s) \<longrightarrow> session s \<noteq> None)"

text \<open>Sample outcomes.\<close>

definition ok_result :: "real \<Rightarrow> TestResult" where
  "ok_result t = \<lparr>endpoint = ''GET /api/products'', status_code = 200,
                   response_time_ms = t, success = True\<rparr>"

definition failed_result :: "real \<Rightarrow> TestResult" where
  "failed_result t = \<lparr>endpoint = ''GET /api/products'', status_code = 0,
                       response_time_ms = t, success = False\<rparr>"

definition two_samples :: "TestResult list" where
  "two_samples = [ok_result 3, failed_result 7, ok_result 1]"

definition twenty_samples :: "TestResult list" where
  "twenty_samples =
     map ok_result [12, 3, 20, 7, 1, 15, 9, 18, 5, 11, 2, 14, 6, 19, 8, 16, 4, 13, 10, 17]"

text \<open>The scenario events of a run of \<^verbatim>\<open>main\<close> in which nothing is raised.\<close>

definition all_scenario_events :: "sevent list" where
  "all_scenario_events =
     [ScenarioStarted ''Low Concurrency Test'', ResultsPrinted ''Low Concurrency Test'',
      ScenarioStarted ''Medium Concurrency Test'', ResultsPrinted ''Medium Concurrency Test'',
      ScenarioStarted ''High Concurrency Test'', ResultsPrinted ''High Concurrency Test'',
      ScenarioStarted ''Stress Test'', ResultsPrinted ''Stress Test'']"

definition run_inv :: "sevent list \<Rightarrow> runner \<Rightarrow> bool" where
  "run_inv evs s \<longleftrightarrow> session_inv s \<and> started_inv s \<and> scenario_events (log s) = evs"

text \<open>Sample draws and schedules: every unit of work creates a product and gets status 201.\<close>

definition draw_at :: "real \<Rightarrow> draw" where
  "draw_at t = \<lparr>tenant_choice = 0, operation = 9 / 10, product_id = 5, now = t,
               reply = Response 201\<rparr>"

definition created :: "real \<Rightarrow> TestResult" where
  "created t = \<lparr>endpoint = ''POST /api/products'', status_code = 201,
                 response_time_ms = t, success = True\<rparr>"

definition one_schedule :: "(nat \<times> draw) list" where
  "one_schedule = [(0, draw_at 1), (0, draw_at 2), (0, draw_at 2), (0, draw_at 2)]"

definition two_schedule :: "(nat \<times> draw) list" where
  "two_schedule =
     [(0, draw_at 1), (1, draw_at 1), (0, draw_at 2), (0, draw_at 2), (0, draw_at 2),
      (1, draw_at 3), (1, draw_at 4), (1, draw_at 4), (1, draw_at 4)]"

text \<open>
  What a unit of work gets when its transport call is cancelled, and the world of a scenario
  that is never reached.
\<close>

definition cancelled_draw :: draw where
  "cancelled_draw = \<lparr>tenant_choice = 0, operation = 9 / 10, product_id = 5, now = 2,
                      reply = Raises CancelledError\<rparr>"

definition idle_world :: world where
  "idle_world = \<lparr>started = 0, schedule = [], ended = 0\<rparr>"

text \<open>
  The schedule that runs the units of work \<open>0, ..., k - 1\<close> one after the other, each
  through its four steps, and the world of a scenario that is scheduled so.
\<close>

fun serial :: "nat \<Rightarrow> draw \<Rightarrow> draw \<Rightarrow> (nat \<times> draw) list" where
  "serial 0 d1 d2 = []"
| "serial (Suc k) d1 d2 = serial k d1 d2 @ [(k, d1), (k, d2), (k, d2), (k, d2)]"

definition serial_world :: "nat \<Rightarrow> world" where
  "serial_world n = \<lparr>started = 0, schedule = serial n (draw_at 1) (draw_at 2), ended = 1\<rparr>"

text \<open>
  A run of \<^verbatim>\<open>main\<close> as the event loop schedules it. In the first scenario every unit of
  work takes its first step, in the order of creation (\<open>first_steps\<close>): the units 0 to 9
  get a slot and send their request, the units 10 to 99 wait. Then the call of unit 0 is
  cancelled, and the slot it leaves goes to unit 10. That is all before \<^verbatim>\<open>run_scenario\<close>
  is resumed with the exception (\<open>leak_schedule\<close>). While \<^verbatim>\<open>close_session\<close> is awaited,
  unit 1 gets its response, appends it and leaves its slot, which goes to unit 11
  (\<open>leak_closing\<close>).
\<close>

definition first_steps :: "nat \<Rightarrow> nat \<Rightarrow> draw \<Rightarrow> (nat \<times> draw) list" where
  "first_steps j k d = map (\<lambda>i. (i, d)) [j..<j + k]"

definition leak_schedule :: "(nat \<times> draw) list" where
  "leak_schedule = first_steps 0 100 (draw_at 1) @ [(0, cancelled_draw), (10, draw_at 2)]"

definition leak_closing :: "(nat \<times> draw) list" where
  "leak_closing = [(1, draw_at 3), (1, draw_at 3), (1, draw_at 3), (11, draw_at 3)]"

definition leak_world :: world where
  "leak_world = \<lparr>started = 0, schedule = leak_schedule, ended = 3\<rparr>"

section \<open>Endpoint operations: results\<close>

text \<open>
  C2. When the transport call raises a transport-level failure (any subclass of
  \<^verbatim>\<open>Exception\<close>: client errors, timeouts, OS errors), each of the three operations returns
  an outcome with status code 0, \<open>success = False\<close> and the time elapsed up to the
  failure; nothing is propagated.
\<close>

theorem transport_failure_is_outcome:
  assumes "is_Exception e"
  shows "get_all_products tenant t0 (Raises e) t1 =
           Inr \<lparr>endpoint = ''GET /api/products'', status_code = 0,
                response_time_ms = (t1 - t0) * 1000, success = False\<rparr>
       \<and> get_product_by_id tenant pid t0 (Raises e) t1 =
           Inr \<lparr>endpoint = ''GET /api/products/{id}'', status_code = 0,
                response_time_ms = (t1 - t0) * 1000, success = False\<rparr>
       \<and> create_product tenant t0 (Raises e) t1 =
           Inr \<lparr>endpoint = ''POST /api/products'', status_code = 0,
                response_time_ms = (t1 - t0) * 1000, success = False\<rparr>"
  using assms
  by (simp add: get_all_products_def get_product_by_id_def create_product_def)

theorem transport_failure_is_outcome_witness:
  "is_Exception TimeoutError
   \<and> get_all_products ''company-a'' 2 (Raises TimeoutError) 32 =
       Inr \<lparr>endpoint = ''GET /api/products'', status_code = 0,
            response_time_ms = 30000, success = False\<rparr>
   \<and> get_product_by_id ''company-a'' 7 2 (Raises TimeoutError) 32 =
       Inr \<lparr>endpoint = ''GET /api/products/{id}'', status_code = 0,
            response_time_ms = 30000, success = False\<rparr>
   \<and> create_product ''company-a'' 2 (Raises TimeoutError) 32 =
       Inr \<lparr>endpoint = ''POST /api/products'', status_code = 0,
            response_time_ms = 30000, success = False\<rparr>"
  using transport_failure_is_outcome [of TimeoutError "''company-a''" 2 32 7]
  by simp

text \<open>
  C5. Every outcome an operation produces carries the status it received, and its
  \<open>success\<close> field holds exactly when that status is the expected one: 200 for the two
  reads, 201 for the creation. A response always gives an outcome. When the call raised,
  the outcome (if the exception is caught) carries the reserved status 0 and is not a
  success.
\<close>

theorem success_iff_expected_status:
  "(\<exists>r. get_all_products tenant t0 (Response st) t1 = Inr r
        \<and> status_code r = st \<and> success r = (st = 200))
 \<and> (\<exists>r. get_product_by_id tenant pid t0 (Response st) t1 = Inr r
        \<and> status_code r = st \<and> success r = (st = 200))
 \<and> (\<exists>r. create_product tenant t0 (Response st) t1 = Inr r
        \<and> status_code r = st \<and> success r = (st = 201))
 \<and> (get_all_products tenant t0 (Raises e) t1 = Inr r' \<longrightarrow>
        status_code r' = 0 \<and> \<not> success r')
 \<and> (get_product_by_id tenant pid t0 (Raises e) t1 = Inr r' \<longrightarrow>
        status_code r' = 0 \<and> \<not> success r')
 \<and> (create_product tenant t0 (Raises e) t1 = Inr r' \<longrightarrow>
        status_code r' = 0 \<and> \<not> success r')"
  by (auto simp: get_all_products_def get_product_by_id_def create_product_def
        split: if_splits)

theorem success_iff_expected_status_witness:
  "get_all_products ''company-a'' 0 (Response 200) 1 =
     Inr \<lparr>endpoint = ''GET /api/products'', status_code = 200,
          response_time_ms = 1000, success = True\<rparr>
   \<and> get_product_by_id ''company-a'' 7 0 (Response 404) 1 =
     Inr \<lparr>endpoint = ''GET /api/products/{id}'', status_code = 404,
          response_time_ms = 1000, success = False\<rparr>
   \<and> create_product ''company-a'' 0 (Response 200) 1 =
     Inr \<lparr>endpoint = ''POST /api/products'', status_code = 200,
          response_time_ms = 1000, success = False\<rparr>
   \<and> create_product ''company-a'' 0 (Response 201) 1 =
     Inr \<lparr>endpoint = ''POST /api/products'', status_code = 201,
          response_time_ms = 1000, success = True\<rparr>
   \<and> get_all_products ''company-a'' 0 (Raises OSError) 1 =
     Inr \<lparr>endpoint = ''GET /api/products'', status_code = 0,
          response_time_ms = 1000, success = False\<rparr>"
  using success_iff_expected_status
          [of "''company-a''" 0 200 1 7 OSError
              "\<lparr>endpoint = ''GET /api/products'', status_code = 0,
                response_time_ms = 1000, success = False\<rparr>"]
        success_iff_expected_status [of "''company-a''" 0 404 1 7]
        success_iff_expected_status [of "''company-a''" 0 201 1 7]
  by (simp add: get_all_products_def get_product_by_id_def create_product_def)

section \<open>Operation selection\<close>



section \<open>The statistics reporter: results\<close>

lemma quantiles_2:
  "2 \<le> length xs \<Longrightarrow> bind_exn (quantiles xs 2) (\<lambda>q. item q 0) = Inr (cut_point (sort xs) 2 1)"
  by (simp add: quantiles_def bind_exn_def item_def)

lemma quantiles_20:
  "20 \<le> length xs \<Longrightarrow>
   bind_exn (quantiles xs 20) (\<lambda>q. item q 18) = Inr (cut_point (sort xs) 20 19)"
  by (simp add: quantiles_def bind_exn_def item_def nth_upto)

lemma py_min_nonempty: "xs \<noteq> [] \<Longrightarrow> py_min xs = Inr (fold min (tl xs) (hd xs))"
  by (cases xs) (simp_all add: py_min_def)

lemma py_max_nonempty: "xs \<noteq> [] \<Longrightarrow> py_max xs = Inr (fold max (tl xs) (hd xs))"
  by (cases xs) (simp_all add: py_max_def)

lemma print_results_eq:
  assumes "num_requests \<noteq> 0" and "total_time \<noteq> 0"
  shows "print_results rs num_requests total_time =
    Inr \<lparr>successful = length (filter success rs),
         failed = length (filter (\<lambda>r. \<not> success r) rs),
         success_rate = real (length (filter success rs)) / of_int num_requests * 100,
         req_per_sec = of_int num_requests / total_time,
         avg_response =
           (if latencies rs = [] then 0 else sum_list (latencies rs) / real (length (latencies rs))),
         p50_response =
           (if 2 \<le> length (latencies rs) then cut_point (sort (latencies rs)) 2 1 else 0),
         p95_response =
           (if 20 \<le> length (latencies rs) then cut_point (sort (latencies rs)) 20 19 else 0),
         min_response =
           (if latencies rs = [] then 0 else fold min (tl (latencies rs)) (hd (latencies rs))),
         max_response =
           (if latencies rs = [] then 0 else fold max (tl (latencies rs)) (hd (latencies rs))),
         by_endpoint = map (endpoint_line rs) (sort (remdups (map endpoint rs)))\<rparr>"
proof -
  let ?rt = "map response_time_ms (filter success rs)"
  have a: "(if ?rt \<noteq> [] then mean ?rt else Inr 0) =
           Inr (if ?rt = [] then 0 else sum_list ?rt / real (length ?rt))"
    by (simp add: mean_def)
  have b: "(if 2 \<le> length ?rt then bind_exn (quantiles ?rt 2) (\<lambda>q. item q 0) else Inr 0) =
           Inr (if 2 \<le> length ?rt then cut_point (sort ?rt) 2 1 else 0)"
    using quantiles_2 [of ?rt] by simp
  have c: "(if 20 \<le> length ?rt then bind_exn (quantiles ?rt 20) (\<lambda>q. item q 18) else Inr 0) =
           Inr (if 20 \<le> length ?rt then cut_point (sort ?rt) 20 19 else 0)"
    using quantiles_20 [of ?rt] by simp
  have d: "(if ?rt \<noteq> [] then py_min ?rt else Inr 0) =
           Inr (if ?rt = [] then 0 else fold min (tl ?rt) (hd ?rt))"
    using py_min_nonempty [of ?rt] by simp
  have e: "(if ?rt \<noteq> [] then py_max ?rt else Inr 0) =
           Inr (if ?rt = [] then 0 else fold max (tl ?rt) (hd ?rt))"
    using py_max_nonempty [of ?rt] by simp
  show ?thesis
    unfolding print_results_def Let_def a b c d e latencies_def
    using assms by (simp add: bind_exn_def)
qed

lemma cut_point_median:
  assumes "2 \<le> length data"
  shows "cut_point data 2 1 =
     (if odd (length data) then data ! (length data div 2)
      else (data ! (length data div 2 - 1) + data ! (length data div 2)) / 2)"
proof (cases "odd (length data)")
  case True
  then obtain q where q: "length data = 2 * q + 1" by (auto elim: oddE)
  with assms have "1 \<le> q" by simp
  then show ?thesis
    using True by (simp add: cut_point_def Let_def q nat_diff_distrib')
next
  case False
  then obtain q where q: "length data = 2 * q" by (auto elim: evenE)
  with assms have "1 \<le> q" by simp
  then show ?thesis
    using False by (simp add: cut_point_def Let_def q nat_diff_distrib')
qed

lemma p95_rank_bounds:
  fixes k :: nat
  assumes "20 \<le> k"
  shows "1 \<le> 19 * (k + 1) div 20" and "19 * (k + 1) div 20 \<le> k - 1"
proof -
  have "20 \<le> 19 * (k + 1)" using assms by simp
  then have "0 < 19 * (k + 1) div 20" by (simp add: div_greater_zero_iff)
  then show "1 \<le> 19 * (k + 1) div 20" by simp
  have "19 * (k + 1) < k * 20" using assms by simp
  then have "19 * (k + 1) div 20 < k" by (rule less_mult_imp_div_less)
  then show "19 * (k + 1) div 20 \<le> k - 1" by simp
qed

lemma p95_rank_rest:
  fixes k :: nat
  shows "19 * (int k + 1) - int (19 * (k + 1) div 20) * 20 = int (19 * (k + 1) mod 20)"
proof -
  have "int (19 * (k + 1) mod 20) = int (19 * (k + 1)) - int (19 * (k + 1) div 20) * 20"
    by (simp add: zmod_int zdiv_int minus_div_mult_eq_mod [symmetric])
  then show ?thesis by simp
qed

lemma cut_point_p95:
  assumes "20 \<le> length data"
  shows "cut_point data 20 19 =
     (data ! (19 * (length data + 1) div 20 - 1) * real (20 - 19 * (length data + 1) mod 20)
      + data ! (19 * (length data + 1) div 20) * real (19 * (length data + 1) mod 20)) / 20"
proof -
  define k where "k = length data"
  define j where "j = 19 * (k + 1) div 20"
  define d where "d = 19 * (k + 1) mod 20"
  have k: "20 \<le> k" using assms by (simp add: k_def)
  have j0: "19 * (int k + 1) div 20 = int j"
    by (simp add: j_def zdiv_int)
  have j1: "1 \<le> j" and j2: "j \<le> k - 1"
    using p95_rank_bounds [OF k] by (simp_all add: j_def)
  have dl: "d < 20" unfolding d_def by simp
  have dd: "19 * (int k + 1) - int j * 20 = int d"
    unfolding j_def d_def by (rule p95_rank_rest)
  have n1: "nat (int j - 1) = j - 1" using j1 by simp
  have c1: "\<not> int j < 1" using j1 by simp
  have c2: "\<not> int j > int k - 1" using j2 k by simp
  have d20: "(20::int) - int d = int (20 - d)" using dl by simp
  have "cut_point data 20 19 = (data ! (j - 1) * real (20 - d) + data ! j * real d) / 20"
    unfolding cut_point_def Let_def k_def [symmetric] j0
    by (simp only: c1 c2 if_False n1 nat_int dd d20 of_int_of_nat_eq of_int_numeral)
  then show ?thesis
    by (simp add: k_def j_def d_def)
qed


lemma print_results_Inr:
  assumes "print_results rs n t = Inr rep"
  shows "n \<noteq> 0" and "t \<noteq> 0"
  using assms by (auto simp: print_results_def Let_def split: if_splits)

lemma print_results_total:
  assumes "n \<noteq> 0" and "t \<noteq> 0"
  shows "print_results rs n t = Inr (projr (print_results rs n t))"
  using print_results_eq [OF assms, of rs] by simp

lemma p50_value:
  assumes "n \<noteq> 0" and "t \<noteq> 0"
  shows "p50_response (projr (print_results rs n t)) =
     (if 2 \<le> length (latencies rs) then cut_point (sort (latencies rs)) 2 1 else 0)"
  using print_results_eq [OF assms, of rs] by simp

lemma p95_value:
  assumes "n \<noteq> 0" and "t \<noteq> 0"
  shows "p95_response (projr (print_results rs n t)) =
     (if 20 \<le> length (latencies rs) then cut_point (sort (latencies rs)) 20 19 else 0)"
  using print_results_eq [OF assms, of rs] by simp

lemma latencies_two: "latencies two_samples = [3, 1]"
  by (simp add: latencies_def two_samples_def ok_result_def failed_result_def)

lemma latencies_twenty:
  "latencies twenty_samples =
     [12, 3, 20, 7, 1, 15, 9, 18, 5, 11, 2, 14, 6, 19, 8, 16, 4, 13, 10, 17]"
  by (simp add: latencies_def twenty_samples_def ok_result_def)

lemma sorted_twenty:
  "sort [12, 3, 20, 7, 1, 15, 9, 18, 5, 11, 2, 14, 6, 19, 8, 16, 4, 13, 10, 17 :: real] =
     [1, 2, 3, 4, 5, 6, 7, 8, 9, 10, 11, 12, 13, 14, 15, 16, 17, 18, 19, 20]"
  by simp

text \<open>
  C6, as the code has it. The reported median is 0 below two successful samples. From two
  samples on it is the midpoint of the sorted successful response times: the middle value
  when their number is odd, and the mean of the two middle values (not the lower one) when
  it is even.
\<close>

theorem p50_is_midpoint_median:
  assumes "print_results rs n t = Inr rep"
  shows "p50_response rep =
     (let xs = sort (latencies rs); k = length xs
      in if k < 2 then 0
         else if odd k then xs ! (k div 2)
         else (xs ! (k div 2 - 1) + xs ! (k div 2)) / 2)"
proof -
  have "p50_response rep =
      (if 2 \<le> length (latencies rs) then cut_point (sort (latencies rs)) 2 1 else 0)"
    using assms print_results_eq [OF print_results_Inr [OF assms], of rs] by auto
  then show ?thesis
    using cut_point_median [of "sort (latencies rs)"] by (simp add: Let_def)
qed

theorem p50_is_midpoint_median_witness:
  "print_results two_samples 3 1 = Inr (projr (print_results two_samples 3 1))
   \<and> p50_response (projr (print_results two_samples 3 1)) = 2"
proof -
  have a: "print_results two_samples 3 1 = Inr (projr (print_results two_samples 3 1))"
    by (rule print_results_total) simp_all
  from p50_is_midpoint_median [OF a] a show ?thesis
    by (simp add: latencies_two Let_def)
qed

text \<open>
  C6 as stated fails: for the successful response times 3 and 1 the code reports the
  median 2, while the lower of the two middle values is 1.
\<close>

theorem p50_lower_middle_counterexample:
  "print_results two_samples 3 1 = Inr (projr (print_results two_samples 3 1))
   \<and> p50_response (projr (print_results two_samples 3 1)) = 2
   \<and> spec_median (latencies two_samples) = 1"
proof -
  have a: "print_results two_samples 3 1 = Inr (projr (print_results two_samples 3 1))"
    by (rule print_results_total) simp_all
  have b: "p50_response (projr (print_results two_samples 3 1)) = 2"
    by (simp add: p50_value latencies_two cut_point_def)
  have c: "spec_median (latencies two_samples) = 1"
    by (simp add: spec_median_def latencies_two)
  from a b c show ?thesis by simp
qed

text \<open>
  C7, as the code has it. The reported p95 is 0 below twenty successful samples. From
  twenty samples on, with \<open>k\<close> samples sorted as \<open>xs\<close>, \<open>j = 19 (k + 1) div 20\<close> and
  \<open>d = 19 (k + 1) mod 20\<close>, it is the linear interpolation
  \<open>(xs[j - 1] (20 - d) + xs[j] d) / 20\<close> between two neighbouring samples.
\<close>

theorem p95_is_interpolated:
  assumes "print_results rs n t = Inr rep"
  shows "p95_response rep =
     (let xs = sort (latencies rs); k = length xs;
          j = 19 * (k + 1) div 20; d = 19 * (k + 1) mod 20
      in if k < 20 then 0
         else (xs ! (j - 1) * real (20 - d) + xs ! j * real d) / 20)"
proof -
  have "p95_response rep =
      (if 20 \<le> length (latencies rs) then cut_point (sort (latencies rs)) 20 19 else 0)"
    using assms print_results_eq [OF print_results_Inr [OF assms], of rs] by auto
  then show ?thesis
    using cut_point_p95 [of "sort (latencies rs)"] by (simp add: Let_def)
qed

theorem p95_is_interpolated_witness:
  "print_results twenty_samples 20 1 = Inr (projr (print_results twenty_samples 20 1))
   \<and> p95_response (projr (print_results twenty_samples 20 1)) = 399 / 20"
proof -
  have a: "print_results twenty_samples 20 1 = Inr (projr (print_results twenty_samples 20 1))"
    by (rule print_results_total) simp_all
  from p95_is_interpolated [OF a] a show ?thesis
    by (simp add: latencies_twenty sorted_twenty Let_def del: sort_key_simps)
qed

text \<open>
  C7 as stated fails: for the twenty successful response times 1, ..., 20 the code
  reports 19.95, which is none of the samples, so it is not a value picked by rank.
\<close>

theorem p95_rank_based_counterexample:
  "print_results twenty_samples 20 1 = Inr (projr (print_results twenty_samples 20 1))
   \<and> p95_response (projr (print_results twenty_samples 20 1)) = 399 / 20
   \<and> 399 / 20 \<notin> set (latencies twenty_samples)"
proof -
  have a: "print_results twenty_samples 20 1 = Inr (projr (print_results twenty_samples 20 1))"
    by (rule print_results_total) simp_all
  have b: "p95_response (projr (print_results twenty_samples 20 1)) = 399 / 20"
    by (simp add: p95_value latencies_twenty sorted_twenty cut_point_def del: sort_key_simps)
  have c: "399 / 20 \<notin> set (latencies twenty_samples)"
    by (simp add: latencies_twenty)
  from a b c show ?thesis by simp
qed

text \<open>
  C8, as the code has it. When no outcome is successful, and neither the number of
  requests nor the elapsed time is zero, the reporter returns without an exception and
  reports 0 for the mean, the median, the p95, the minimum and the maximum.
\<close>

theorem no_success_reports_zero:
  assumes "filter success rs = []" and "n \<noteq> 0" and "t \<noteq> 0"
  shows "\<exists>rep. print_results rs n t = Inr rep
           \<and> avg_response rep = 0 \<and> p50_response rep = 0 \<and> p95_response rep = 0
           \<and> min_response rep = 0 \<and> max_response rep = 0"
  using print_results_eq [OF assms(2,3), of rs] assms(1)
  by (simp add: latencies_def)


theorem no_success_reports_zero_witness:
  "filter success [failed_result 7, failed_result 9] = []
   \<and> print_results [failed_result 7, failed_result 9] 2 1 =
       Inr (projr (print_results [failed_result 7, failed_result 9] 2 1))
   \<and> avg_response (projr (print_results [failed_result 7, failed_result 9] 2 1)) = 0
   \<and> p50_response (projr (print_results [failed_result 7, failed_result 9] 2 1)) = 0
   \<and> p95_response (projr (print_results [failed_result 7, failed_result 9] 2 1)) = 0
   \<and> min_response (projr (print_results [failed_result 7, failed_result 9] 2 1)) = 0
   \<and> max_response (projr (print_results [failed_result 7, failed_result 9] 2 1)) = 0"
proof -
  have a: "filter success [failed_result 7, failed_result 9] = []"
    by (simp add: failed_result_def)
  from no_success_reports_zero [OF a, of 2 1] a show ?thesis
    by auto
qed

text \<open>
  C8 as stated fails: \<^verbatim>\<open>_print_results\<close> divides by the elapsed time (line 203) before it
  reaches the guarded statistics, so with no successful outcome and an elapsed time of 0
  it raises \<^verbatim>\<open>ZeroDivisionError\<close>.
\<close>

theorem no_success_zero_time_counterexample:
  "filter success [failed_result 7] = []
   \<and> print_results [failed_result 7] 1 0 = Inl ZeroDivisionError"
  by (simp add: failed_result_def print_results_def)

section \<open>The scenario runner and the sequencer: results\<close>

lemma enter_fields:
  "semaphore (enter i d s) = semaphore s - 1"
  "tasks (enter i d s) = (tasks s)[i := InFlight (choose_call d) (now d)]"
  "trace (enter i d s) = trace s @ [Acquire i]"
  "results (enter i d s) = results s"
  "session (enter i d s) = Some False"
  "log (enter i d s) = (if session s = Some False then log s else log s @ [SessionCreated])"
  by (auto simp: enter_def get_session_def Let_def)

lemma task_step_cases [consumes 1, case_names enter wait got fail append release]:
  assumes "task_step i d s = Some s'"
  obtains
    "i < length (tasks s)" and "tasks s ! i = Created \<or> tasks s ! i = Waiting"
      and "0 < semaphore s" and "s' = enter i d s"
  | "i < length (tasks s)" and "tasks s ! i = Created" and "semaphore s \<le> 0"
      and "s' = s\<lparr>tasks := (tasks s)[i := Waiting]\<rparr>"
  | c t r where "i < length (tasks s)" and "tasks s ! i = InFlight c t"
      and "invoke c t (reply d) (now d) = Inr r"
      and "s' = s\<lparr>tasks := (tasks s)[i := Got r]\<rparr>"
  | c t e where "i < length (tasks s)" and "tasks s ! i = InFlight c t"
      and "invoke c t (reply d) (now d) = Inl e"
      and "s' = s\<lparr>semaphore := semaphore s + 1, tasks := (tasks s)[i := Failed e],
                    trace := trace s @ [Release i]\<rparr>"
  | r where "i < length (tasks s)" and "tasks s ! i = Got r"
      and "s' = s\<lparr>results := results s @ [r], tasks := (tasks s)[i := Appended],
                    trace := trace s @ [Append i r]\<rparr>"
  | "i < length (tasks s)" and "tasks s ! i = Appended"
      and "s' = s\<lparr>semaphore := semaphore s + 1, tasks := (tasks s)[i := Done],
                    trace := trace s @ [Release i]\<rparr>"
  using assms
  by (auto simp: task_step_def split: if_splits pc.splits sum.splits)

lemma filter_update_length:
  "i < length xs \<Longrightarrow>
   length (filter P (xs[i := y])) + (if P (xs ! i) then 1 else 0) =
   length (filter P xs) + (if P y then 1 else 0)"
proof (induction xs arbitrary: i)
  case Nil
  then show ?case by simp
next
  case (Cons x xs)
  then show ?case by (cases i) auto
qed

lemma in_flight_update:
  "i < length (tasks s) \<Longrightarrow> tasks s' = (tasks s)[i := p] \<Longrightarrow>
   int (in_flight s') + (if holds_slot (tasks s ! i) then 1 else 0) =
   int (in_flight s) + (if holds_slot p then 1 else 0)"
  using filter_update_length [of i "tasks s" holds_slot p]
  by (simp add: in_flight_def split: if_splits)

lemma task_step_slots:
  assumes "task_step i d s = Some s'" and "slots_inv c s"
  shows "slots_inv c s'"
  using assms
proof (cases rule: task_step_cases)
  case enter
  then show ?thesis
    using assms(2) in_flight_update [of i s s' "InFlight (choose_call d) (now d)"]
    by (auto simp: slots_inv_def enter_fields)
next
  case wait
  then show ?thesis
    using assms(2) in_flight_update [of i s s' Waiting]
    by (auto simp: slots_inv_def)
next
  case (got c t r)
  then show ?thesis
    using assms(2) in_flight_update [of i s s' "Got r"]
    by (auto simp: slots_inv_def)
next
  case (fail c t e)
  then show ?thesis
    using assms(2) in_flight_update [of i s s' "Failed e"]
    by (auto simp: slots_inv_def)
next
  case (append r)
  then show ?thesis
    using assms(2) in_flight_update [of i s s' Appended]
    by (auto simp: slots_inv_def)
next
  case release
  then show ?thesis
    using assms(2) in_flight_update [of i s s' Done]
    by (auto simp: slots_inv_def)
qed

lemma exec_slots:
  "exec sched s = Some s' \<Longrightarrow> slots_inv c s \<Longrightarrow> slots_inv c s'"
proof (induction sched arbitrary: s)
  case Nil
  then show ?case by simp
next
  case (Cons a sched)
  obtain i d where a: "a = (i, d)" by (cases a)
  from Cons.prems(1) obtain s1 where s1: "task_step i d s = Some s1" "exec sched s1 = Some s'"
    by (auto simp: a split: option.splits)
  from task_step_slots [OF s1(1) Cons.prems(2)] Cons.IH [OF s1(2)] show ?case by simp
qed

lemma create_tasks_slots: "0 \<le> c \<Longrightarrow> slots_inv c (create_tasks n c s)"
  by (simp add: slots_inv_def create_tasks_def in_flight_def)

text \<open>
  C3. While a scenario runs, at every instant (after every sequence of steps the event
  loop can take from the state in which \<^verbatim>\<open>gather\<close> is called) the number of units of
  work that hold a slot, that is, those dispatched and not yet completed, is at most
  \<open>concurrency\<close>. The only thing that bounds it is the semaphore's counter.
\<close>

theorem in_flight_bounded:
  assumes "0 \<le> concurrency"
    and "exec sched (create_tasks num_requests concurrency (clear_results name self)) = Some s"
  shows "int (in_flight s) \<le> concurrency"
  using exec_slots [OF assms(2) create_tasks_slots [OF assms(1)]]
  by (simp add: slots_inv_def)

lemma exec_invariant:
  assumes "exec sched s = Some s'" and "P s"
    and "\<And>i d s s'. task_step i d s = Some s' \<Longrightarrow> P s \<Longrightarrow> P s'"
  shows "P s'"
  using assms(1,2)
proof (induction sched arbitrary: s)
  case Nil
  then show ?case by simp
next
  case (Cons a sched)
  obtain i d where a: "a = (i, d)" by (cases a)
  from Cons.prems(1) obtain s1 where s1: "task_step i d s = Some s1" "exec sched s1 = Some s'"
    by (auto simp: a split: option.splits)
  from assms(3) [OF s1(1) Cons.prems(2)] Cons.IH [OF s1(2)] show ?case by simp
qed

lemma failure_Some: "failure ps = Some e \<Longrightarrow> Failed e \<in> set ps"
  by (induction ps rule: failure.induct) auto

lemma failure_all_done: "list_all (\<lambda>p. p = Done) ps \<Longrightarrow> failure ps = None"
  by (induction ps) auto

lemma failure_None: "failure ps = None \<longleftrightarrow> (\<forall>e. Failed e \<notin> set ps)"
  by (induction ps rule: failure.induct) auto

lemma task_step_failed:
  assumes "task_step i d s = Some s'" and "Failed e \<in> set (tasks s)"
  shows "Failed e \<in> set (tasks s')"
proof -
  from assms(2) obtain j where j: "j < length (tasks s)" "tasks s ! j = Failed e"
    by (auto simp: in_set_conv_nth)
  from assms(1) have "j < length (tasks s') \<and> tasks s' ! j = Failed e"
    using j by (cases rule: task_step_cases) (auto simp: enter_fields nth_list_update)
  then show ?thesis by (auto simp: in_set_conv_nth)
qed

lemma exec_failed:
  "exec sched s = Some s' \<Longrightarrow> Failed e \<in> set (tasks s) \<Longrightarrow> Failed e \<in> set (tasks s')"
  using exec_invariant [where P = "\<lambda>x. Failed e \<in> set (tasks x)"] task_step_failed by blast

lemma task_step_not_done:
  assumes "task_step i d s = Some s'"
  shows "\<not> list_all (\<lambda>p. p = Done) (tasks s)"
  using assms by (cases rule: task_step_cases) (auto simp: list_all_length)

lemma gather_exec:
  "gather raised sched s = Some (e, s') \<Longrightarrow> \<exists>pre. prefix pre sched \<and> exec pre s = Some s'"
proof (induction sched arbitrary: raised s)
  case Nil
  then show ?case by (auto split: option.splits if_splits)
next
  case (Cons a sched)
  obtain i d where a: "a = (i, d)" by (cases a)
  show ?case
  proof (cases "raised = None \<and> list_all (\<lambda>p. p = Done) (tasks s)")
    case True
    with Cons.prems have "s' = s" by (simp add: a)
    then have "prefix [] (a # sched) \<and> exec [] s = Some s'" by simp
    then show ?thesis by blast
  next
    case False
    with Cons.prems obtain s1 r1 where s1: "task_step i d s = Some s1"
      "gather r1 sched s1 = Some (e, s')"
      by (auto simp: a split: option.splits if_splits)
    from Cons.IH [OF s1(2)] obtain pre where "prefix pre sched" "exec pre s1 = Some s'"
      by blast
    then have "prefix (a # pre) (a # sched) \<and> exec (a # pre) s = Some s'"
      using s1(1) by (simp add: a)
    then show ?thesis by blast
  qed
qed

lemma gather_returns:
  "gather raised sched s = Some (None, s') \<Longrightarrow> list_all (\<lambda>p. p = Done) (tasks s')"
proof (induction sched arbitrary: raised s)
  case Nil
  then show ?case by (auto split: option.splits if_splits)
next
  case (Cons a sched)
  obtain i d where a: "a = (i, d)" by (cases a)
  show ?case
  proof (cases "raised = None \<and> list_all (\<lambda>p. p = Done) (tasks s)")
    case True
    with Cons.prems show ?thesis by (simp add: a)
  next
    case False
    with Cons.prems obtain s1 r1 where "gather r1 sched s1 = Some (None, s')"
      by (auto simp: a split: option.splits if_splits)
    then show ?thesis by (rule Cons.IH)
  qed
qed

lemma gather_raises:
  "gather raised sched s = Some (Some e, s') \<Longrightarrow>
   (\<forall>x. raised = Some x \<longrightarrow> Failed x \<in> set (tasks s)) \<Longrightarrow> Failed e \<in> set (tasks s')"
proof (induction sched arbitrary: raised s)
  case Nil
  then show ?case by (auto split: option.splits if_splits)
next
  case (Cons a sched)
  obtain i d where a: "a = (i, d)" by (cases a)
  let ?r1 = "\<lambda>s1. if raised = None then failure (tasks s1) else raised"
  from Cons.prems(1) obtain s1 where s1: "task_step i d s = Some s1"
    "gather (?r1 s1) sched s1 = Some (Some e, s')"
    by (auto simp: a split: option.splits if_splits)
  have "\<forall>x. ?r1 s1 = Some x \<longrightarrow> Failed x \<in> set (tasks s1)"
    using Cons.prems(2) task_step_failed [OF s1(1)] failure_Some [of "tasks s1"] by auto
  from Cons.IH [OF s1(2) this] show ?case .
qed

lemma exec_gather:
  "exec sched s = Some s' \<Longrightarrow> list_all (\<lambda>p. p = Done) (tasks s') \<Longrightarrow>
   gather None sched s = Some (None, s')"
proof (induction sched arbitrary: s)
  case Nil
  then show ?case by simp
next
  case (Cons a sched)
  obtain i d where a: "a = (i, d)" by (cases a)
  from Cons.prems(1) obtain s1 where s1: "task_step i d s = Some s1" "exec sched s1 = Some s'"
    by (auto simp: a split: option.splits)
  have "failure (tasks s1) = None"
  proof (rule ccontr)
    assume "failure (tasks s1) \<noteq> None"
    then obtain e where "Failed e \<in> set (tasks s1)" by (auto simp: failure_None)
    from exec_failed [OF s1(2) this] Cons.prems(2) show False
      by (auto simp: list_all_iff)
  qed
  then show ?case
    using s1(1) task_step_not_done [OF s1(1)] Cons.IH [OF s1(2) Cons.prems(2)]
    by (simp add: a)
qed

lemma task_step_length: "task_step i d s = Some s' \<Longrightarrow> length (tasks s') = length (tasks s)"
  by (cases rule: task_step_cases) (auto simp: enter_fields)

lemma exec_length: "exec sched s = Some s' \<Longrightarrow> length (tasks s') = length (tasks s)"
  using exec_invariant [where P = "\<lambda>x. length (tasks x) = length (tasks s)"]
  by (simp add: task_step_length)

lemma appended_append: "appended (xs @ ys) = appended xs @ appended ys"
  by (induction xs rule: appended.induct) auto

lemma task_step_collect:
  assumes "task_step i d s = Some s'" and "collect_inv s"
  shows "collect_inv s'"
  using assms(1)
proof (cases rule: task_step_cases)
  case enter
  then show ?thesis
    using assms(2)
    by (auto simp: collect_inv_def enter_fields appended_append nth_list_update)
next
  case wait
  then show ?thesis
    using assms(2)
    by (auto simp: collect_inv_def nth_list_update)
next
  case (got c t r)
  then show ?thesis
    using assms(2)
    by (auto simp: collect_inv_def nth_list_update)
next
  case (fail c t e)
  then show ?thesis
    using assms(2)
    by (auto simp: collect_inv_def appended_append nth_list_update)
next
  case (append r)
  then show ?thesis
    using assms(2)
    by (auto simp: collect_inv_def appended_append nth_list_update)
next
  case release
  then show ?thesis
    using assms(2)
    by (auto simp: collect_inv_def appended_append nth_list_update)
qed

lemma appended_ids: "i \<in> fst ` set (appended es) \<longleftrightarrow> (\<exists>e\<in>set es. is_append i e)"
  by (induction es rule: appended.induct) auto

lemma appended_pair: "(i, r) \<in> set (appended es) \<Longrightarrow> \<exists>e\<in>set es. is_append i e"
  using appended_ids [of i es] by force

lemma before_append_snoc:
  "before_append i (es @ [e]) =
     (if \<exists>x\<in>set es. is_append i x then before_append i es
      else if is_append i e then es else es @ [e])"
  by (auto simp: before_append_def takeWhile_append)

lemma task_step_order:
  assumes "task_step i d s = Some s'" and "order_inv s"
  shows "order_inv s'"
  using assms(1)
proof (cases rule: task_step_cases)
  case enter
  then show ?thesis
    using assms(2)
    by (auto simp: order_inv_def enter_fields appended_append nth_list_update
          before_append_snoc appended_ids dest: appended_pair)
next
  case wait
  then show ?thesis
    using assms(2)
    by (auto simp: order_inv_def nth_list_update)
next
  case (got c t r)
  then show ?thesis
    using assms(2)
    by (auto simp: order_inv_def nth_list_update)
next
  case (fail c t e)
  then show ?thesis
    using assms(2)
    by (auto simp: order_inv_def appended_append nth_list_update
          before_append_snoc appended_ids dest: appended_pair)
next
  case (append r)
  then show ?thesis
    using assms(2)
    by (auto simp: order_inv_def appended_append nth_list_update
          before_append_snoc appended_ids dest: appended_pair)
next
  case release
  then show ?thesis
    using assms(2)
    by (auto simp: order_inv_def appended_append nth_list_update
          before_append_snoc appended_ids dest: appended_pair)
qed

lemma exec_collect: "exec sched s = Some s' \<Longrightarrow> collect_inv s \<Longrightarrow> collect_inv s'"
  using exec_invariant [where P = collect_inv] task_step_collect by blast

lemma exec_order: "exec sched s = Some s' \<Longrightarrow> order_inv s \<Longrightarrow> order_inv s'"
  using exec_invariant [where P = order_inv] task_step_order by blast

lemma start_collect: "collect_inv (create_tasks n c (clear_results name self))"
  by (simp add: collect_inv_def create_tasks_def clear_results_def)

lemma start_order: "order_inv (create_tasks n c (clear_results name self))"
  by (simp add: order_inv_def create_tasks_def clear_results_def)

lemma all_done_ids:
  assumes "list_all (\<lambda>p. p = Done) ps"
  shows "{i. i < length ps \<and> has_appended (ps ! i)} = {0..<length ps}"
  using assms by (auto simp: list_all_length)

lemma run_scenario_returns:
  assumes "run_scenario name n c t0 sched t1 self = Some (None, self')"
  obtains s2 where "gather None sched (create_tasks n c (clear_results name self)) = Some (None, s2)"
    and "results self' = results s2" and "trace self' = trace s2" and "tasks self' = tasks s2"
    and "0 \<le> c" and "n \<noteq> 0"
  using assms
  by (auto simp: run_scenario_def Let_def print_results_def
           split: if_splits option.splits sum.splits prod.splits)

text \<open>
  C1. When \<^verbatim>\<open>run_scenario\<close> returns, the collection holds exactly \<open>num_requests\<close>
  outcomes: they are the outcomes the units of work appended, every unit
  \<open>0, ..., num_requests - 1\<close> appended one and none appended twice, whatever the
  transport did to the single requests.
\<close>

theorem run_scenario_collects_all:
  assumes "0 \<le> num_requests"
    and "run_scenario name num_requests concurrency t0 sched t1 self = Some (None, self')"
  shows "int (length (results self')) = num_requests
       \<and> results self' = map snd (appended (trace self'))
       \<and> distinct (map fst (appended (trace self')))
       \<and> set (map fst (appended (trace self'))) = {0..<nat num_requests}"
proof -
  let ?s1 = "create_tasks num_requests concurrency (clear_results name self)"
  from assms(2) obtain s2 where g: "gather None sched ?s1 = Some (None, s2)"
    and eq: "results self' = results s2" "trace self' = trace s2"
    by (rule run_scenario_returns)
  from gather_exec [OF g] obtain pre where pre: "exec pre ?s1 = Some s2" by blast
  have len: "length (tasks s2) = nat num_requests"
    using exec_length [OF pre] by (simp add: create_tasks_def)
  have inv: "collect_inv s2"
    using exec_collect [OF pre start_collect] .
  have ids: "set (map fst (appended (trace s2))) = {0..<nat num_requests}"
    using inv all_done_ids [OF gather_returns [OF g]] len by (simp add: collect_inv_def)
  have dist: "distinct (map fst (appended (trace s2)))"
    using inv by (simp add: collect_inv_def)
  have "length (map fst (appended (trace s2))) = card {0..<nat num_requests}"
    using distinct_card [OF dist] ids by simp
  then have "length (results s2) = nat num_requests"
    using inv by (simp add: collect_inv_def)
  with assms(1) ids dist inv eq show ?thesis
    by (simp add: collect_inv_def)
qed

text \<open>
  C10, as the code has it. For every unit of work that appends an outcome, the append
  comes first and the release of the slot second: nothing before the append in the
  history is the unit's release, and once the unit is done its release is found after the
  append.
\<close>

theorem append_before_release:
  assumes "exec sched (create_tasks num_requests concurrency (clear_results name self)) = Some s"
    and "i \<in> set (map fst (appended (trace s)))"
  shows "Release i \<notin> set (before_append i (trace s))
       \<and> (tasks s ! i = Done \<longrightarrow> Release i \<in> set (from_append i (trace s)))"
proof -
  have inv: "order_inv s"
    using exec_order [OF assms(1) start_order] .
  have cinv: "collect_inv s"
    using exec_collect [OF assms(1) start_collect] .
  have a: "Release i \<notin> set (before_append i (trace s))"
    using inv assms(2) by (simp add: order_inv_def)
  have i: "i < length (tasks s)"
    using cinv assms(2) by (auto simp: collect_inv_def)
  have "set (trace s) = set (before_append i (trace s)) \<union> set (from_append i (trace s))"
    unfolding before_append_def from_append_def
    by (metis set_append takeWhile_dropWhile_id)
  moreover have "tasks s ! i = Done \<Longrightarrow> Release i \<in> set (trace s)"
    using inv i by (simp add: order_inv_def)
  ultimately show ?thesis using a by auto
qed

lemma task_step_run_inv:
  assumes "task_step i d s = Some s'" and "run_inv evs s"
  shows "run_inv evs s'"
  using assms(1)
proof (cases rule: task_step_cases)
  case enter
  then show ?thesis
    using assms(2)
    by (auto simp: run_inv_def session_inv_def started_inv_def scenario_events_def enter_fields)
next
  case wait
  then show ?thesis
    using assms(2)
    by (auto simp: run_inv_def session_inv_def started_inv_def list_ex_length nth_list_update
             split: if_splits)
next
  case (got c t r)
  then show ?thesis
    using assms(2)
    by (auto simp: run_inv_def session_inv_def started_inv_def list_ex_length)
next
  case (fail c t e)
  then show ?thesis
    using assms(2)
    by (auto simp: run_inv_def session_inv_def started_inv_def list_ex_length)
next
  case (append r)
  then show ?thesis
    using assms(2)
    by (auto simp: run_inv_def session_inv_def started_inv_def list_ex_length)
next
  case release
  then show ?thesis
    using assms(2)
    by (auto simp: run_inv_def session_inv_def started_inv_def list_ex_length)
qed

lemma exec_run_inv: "exec sched s = Some s' \<Longrightarrow> run_inv evs s \<Longrightarrow> run_inv evs s'"
  using exec_invariant [where P = "run_inv evs"] task_step_run_inv by blast

lemma start_run_inv:
  assumes "session_inv self"
  shows "run_inv (scenario_events (log self) @ [ScenarioStarted name])
           (create_tasks n c (clear_results name self))"
  using assms
  by (auto simp: run_inv_def session_inv_def started_inv_def scenario_events_def
        create_tasks_def clear_results_def list_ex_iff)

lemma gather_session:
  assumes "gather None sched s = Some (e, s')" and "run_inv evs s" and "tasks s \<noteq> []"
  shows "run_inv evs s'" and "session s' = Some False"
proof -
  from gather_exec [OF assms(1)] obtain pre where pre: "exec pre s = Some s'" by blast
  show inv: "run_inv evs s'" using exec_run_inv [OF pre assms(2)] .
  have len: "tasks s' \<noteq> []" using exec_length [OF pre] assms(3) by auto
  have "list_ex has_started (tasks s')"
  proof (cases e)
    case None
    with assms(1) have "list_all (\<lambda>p. p = Done) (tasks s')" by (simp add: gather_returns)
    with len show ?thesis by (cases "tasks s'") (auto simp: list_ex_iff)
  next
    case (Some x)
    with assms(1) have "Failed x \<in> set (tasks s')" by (simp add: gather_raises)
    then show ?thesis by (force simp: list_ex_iff)
  qed
  with inv show "session s' = Some False"
    by (auto simp: run_inv_def started_inv_def session_inv_def)
qed

lemma run_scenario_session:
  assumes "run_scenario name n c t0 sched t1 self = Some (e, self')"
    and "session_inv self" and "0 < n" and "0 \<le> c"
  shows "session_inv self'" and "session self' = Some False"
    and "scenario_events (log self') =
           scenario_events (log self) @ ScenarioStarted name #
             (if e = None then [ResultsPrinted name] else [])"
proof -
  let ?s1 = "create_tasks n c (clear_results name self)"
  let ?evs = "scenario_events (log self) @ [ScenarioStarted name]"
  from assms(1,4) obtain e2 s2 where g: "gather None sched ?s1 = Some (e2, s2)"
    by (auto simp: run_scenario_def Let_def split: option.splits prod.splits)
  have ne: "tasks ?s1 \<noteq> []" using assms(3) by (simp add: create_tasks_def)
  note inv = gather_session [OF g start_run_inv [OF assms(2)] ne]
  from assms(1,4) g have cases:
    "(self' = s2 \<and> e \<noteq> None) \<or> (self' = s2\<lparr>log := log s2 @ [ResultsPrinted name]\<rparr> \<and> e = None)"
    by (auto simp: run_scenario_def Let_def split: option.splits sum.splits)
  with inv show "session_inv self'"
    by (auto simp: run_inv_def session_inv_def)
  from cases inv show "session self' = Some False" by auto
  from cases inv show "scenario_events (log self') =
           scenario_events (log self) @ ScenarioStarted name #
             (if e = None then [ResultsPrinted name] else [])"
    by (auto simp: run_inv_def scenario_events_def)
qed

lemma and_then_cases:
  assumes "and_then m f = Some (e, s)"
  obtains "m = Some (e, s)" and "e \<noteq> None"
  | s1 where "m = Some (None, s1)" and "f s1 = Some (e, s)"
  using assms by (auto simp: and_then_def split: option.splits prod.splits)

lemma new_runner_session: "session_inv new_runner" "scenario_events (log new_runner) = []"
  by (simp_all add: session_inv_def new_runner_def scenario_events_def)

lemma choose_draw_at: "choose_call (draw_at t) = Create_product ''company-a''"
  by (simp add: choose_call_def draw_at_def random_choice_def tenants_def)

lemma draw_at_fields: "now (draw_at t) = t" "reply (draw_at t) = Response 201"
  by (simp_all add: draw_at_def)

lemma create_product_201:
  "create_product tenant t0 (Response 201) t = Inr (created ((t - t0) * 1000))"
  by (simp add: create_product_def created_def)

lemmas run_simps =
  task_step_def enter_def get_session_def choose_draw_at draw_at_fields create_product_201
  create_tasks_def clear_results_def new_runner_def

lemma one_exec:
  "exec one_schedule (create_tasks 1 1 (clear_results ''x'' new_runner)) =
     Some \<lparr>results = [created 1000], session = Some False, semaphore = 1,
           tasks = [Done],
           trace = [Acquire 0, Append 0 (created 1000), Release 0],
           log = [ScenarioStarted ''x'', SessionCreated]\<rparr>"
  by (simp add: one_schedule_def run_simps)

lemma two_exec:
  "exec two_schedule (create_tasks 2 1 (clear_results ''x'' new_runner)) =
     Some \<lparr>results = [created 1000, created 1000], session = Some False, semaphore = 1,
           tasks = [Done, Done],
           trace = [Acquire 0, Append 0 (created 1000), Release 0,
                    Acquire 1, Append 1 (created 1000), Release 1],
           log = [ScenarioStarted ''x'', SessionCreated]\<rparr>"
  by (simp add: two_schedule_def run_simps eval_nat_numeral)

lemma two_gather:
  "gather None two_schedule (create_tasks 2 1 (clear_results ''x'' new_runner)) =
     Some (None, \<lparr>results = [created 1000, created 1000], session = Some False, semaphore = 1,
           tasks = [Done, Done],
           trace = [Acquire 0, Append 0 (created 1000), Release 0,
                    Acquire 1, Append 1 (created 1000), Release 1],
           log = [ScenarioStarted ''x'', SessionCreated]\<rparr>)"
  by (simp add: two_schedule_def run_simps eval_nat_numeral)

lemma run_scenario_ok:
  assumes "gather None sched (create_tasks n c (clear_results name self)) = Some (None, s2)"
    and "0 \<le> c" and "n \<noteq> 0" and "t1 \<noteq> t0"
  shows "run_scenario name n c t0 sched t1 self =
           Some (None, s2\<lparr>log := log s2 @ [ResultsPrinted name]\<rparr>)"
proof -
  have "print_results (results s2) n (t1 - t0) =
          Inr (projr (print_results (results s2) n (t1 - t0)))"
    using assms(3,4) by (intro print_results_total) simp_all
  then obtain rep where "print_results (results s2) n (t1 - t0) = Inr rep" ..
  then show ?thesis
    using assms(1,2) by (simp add: run_scenario_def Let_def)
qed

lemma one_run:
  "run_scenario ''x'' 1 1 0 one_schedule 5 new_runner =
     Some (None, \<lparr>results = [created 1000], session = Some False, semaphore = 1,
           tasks = [Done],
           trace = [Acquire 0, Append 0 (created 1000), Release 0],
           log = [ScenarioStarted ''x'', SessionCreated, ResultsPrinted ''x'']\<rparr>)"
proof -
  have g: "gather None one_schedule (create_tasks 1 1 (clear_results ''x'' new_runner)) =
     Some (None, \<lparr>results = [created 1000], session = Some False, semaphore = 1,
           tasks = [Done],
           trace = [Acquire 0, Append 0 (created 1000), Release 0],
           log = [ScenarioStarted ''x'', SessionCreated]\<rparr>)"
    by (simp add: one_schedule_def run_simps)
  show ?thesis
    using run_scenario_ok [OF g, where ?t0.0 = 0 and ?t1.0 = 5] by simp
qed

lemma two_run:
  "run_scenario ''x'' 2 1 0 two_schedule 5 new_runner =
     Some (None, \<lparr>results = [created 1000, created 1000], session = Some False, semaphore = 1,
           tasks = [Done, Done],
           trace = [Acquire 0, Append 0 (created 1000), Release 0,
                    Acquire 1, Append 1 (created 1000), Release 1],
           log = [ScenarioStarted ''x'', SessionCreated, ResultsPrinted ''x'']\<rparr>)"
  using run_scenario_ok [OF two_gather, where ?t0.0 = 0 and ?t1.0 = 5] by simp

theorem run_scenario_collects_all_witness:
  "run_scenario ''x'' 2 1 0 two_schedule 5 new_runner =
     Some (None, \<lparr>results = [created 1000, created 1000], session = Some False, semaphore = 1,
           tasks = [Done, Done],
           trace = [Acquire 0, Append 0 (created 1000), Release 0,
                    Acquire 1, Append 1 (created 1000), Release 1],
           log = [ScenarioStarted ''x'', SessionCreated, ResultsPrinted ''x'']\<rparr>)
   \<and> length [created 1000, created 1000] = 2
   \<and> map fst (appended [Acquire 0, Append 0 (created 1000), Release 0,
                         Acquire 1, Append 1 (created 1000), Release 1]) = [0, 1]"
  using run_scenario_collects_all [OF _ two_run] two_run
  by simp

theorem in_flight_bounded_witness:
  "exec [(0, draw_at 1), (1, draw_at 1)] (create_tasks 2 1 (clear_results ''x'' new_runner)) =
     Some \<lparr>results = [], session = Some False, semaphore = 0,
           tasks = [InFlight (Create_product ''company-a'') 1, Waiting],
           trace = [Acquire 0], log = [ScenarioStarted ''x'', SessionCreated]\<rparr>
   \<and> in_flight \<lparr>results = [], session = Some False, semaphore = 0,
           tasks = [InFlight (Create_product ''company-a'') 1, Waiting],
           trace = [Acquire 0], log = [ScenarioStarted ''x'', SessionCreated]\<rparr> = 1"
proof -
  have a: "exec [(0, draw_at 1), (1, draw_at 1)]
             (create_tasks 2 1 (clear_results ''x'' new_runner)) =
     Some \<lparr>results = [], session = Some False, semaphore = 0,
           tasks = [InFlight (Create_product ''company-a'') 1, Waiting],
           trace = [Acquire 0], log = [ScenarioStarted ''x'', SessionCreated]\<rparr>"
    by (simp add: run_simps eval_nat_numeral)
  from in_flight_bounded [OF _ a] a show ?thesis
    by (simp add: in_flight_def)
qed

theorem append_before_release_witness:
  "exec two_schedule (create_tasks 2 1 (clear_results ''x'' new_runner)) =
     Some \<lparr>results = [created 1000, created 1000], session = Some False, semaphore = 1,
           tasks = [Done, Done],
           trace = [Acquire 0, Append 0 (created 1000), Release 0,
                    Acquire 1, Append 1 (created 1000), Release 1],
           log = [ScenarioStarted ''x'', SessionCreated]\<rparr>
   \<and> before_append 1 [Acquire 0, Append 0 (created 1000), Release 0,
                       Acquire 1, Append 1 (created 1000), Release 1] =
       [Acquire 0, Append 0 (created 1000), Release 0, Acquire 1]
   \<and> Release 1 \<in> set (from_append 1 [Acquire 0, Append 0 (created 1000), Release 0,
                       Acquire 1, Append 1 (created 1000), Release 1])"
  using append_before_release [OF two_exec, of 1] two_exec
  by (simp add: before_append_def from_append_def)

text \<open>
  C10 as stated fails: in the run of one request the history is acquire, append,
  release; the slot has not been released when the outcome is appended.
\<close>

theorem release_before_append_counterexample:
  "run_scenario ''x'' 1 1 0 one_schedule 5 new_runner =
     Some (None, \<lparr>results = [created 1000], session = Some False, semaphore = 1,
           tasks = [Done],
           trace = [Acquire 0, Append 0 (created 1000), Release 0],
           log = [ScenarioStarted ''x'', SessionCreated, ResultsPrinted ''x'']\<rparr>)
   \<and> Release 0 \<notin> set (before_append 0 [Acquire 0, Append 0 (created 1000), Release 0])"
  using one_run by (simp add: before_append_def)

text \<open>Every scenario with a positive concurrency has a schedule that completes it.\<close>

lemma exec_append:
  "exec (xs @ ys) s = (case exec xs s of None \<Rightarrow> None | Some s' \<Rightarrow> exec ys s')"
  by (induction xs arbitrary: s) (auto split: option.splits)

lemma step_enter:
  "i < length (tasks s) \<Longrightarrow> tasks s ! i = Created \<Longrightarrow> 0 < semaphore s \<Longrightarrow>
   task_step i d s = Some (enter i d s)"
  by (simp add: task_step_def)

lemma step_got:
  "i < length (tasks s) \<Longrightarrow> tasks s ! i = InFlight c t \<Longrightarrow>
   invoke c t (reply d) (now d) = Inr r \<Longrightarrow>
   task_step i d s = Some (s\<lparr>tasks := (tasks s)[i := Got r]\<rparr>)"
  by (simp add: task_step_def)

lemma step_append:
  "i < length (tasks s) \<Longrightarrow> tasks s ! i = Got r \<Longrightarrow>
   task_step i d s =
     Some (s\<lparr>results := results s @ [r], tasks := (tasks s)[i := Appended],
              trace := trace s @ [Append i r]\<rparr>)"
  by (simp add: task_step_def)

lemma step_release:
  "i < length (tasks s) \<Longrightarrow> tasks s ! i = Appended \<Longrightarrow>
   task_step i d s =
     Some (s\<lparr>semaphore := semaphore s + 1, tasks := (tasks s)[i := Done],
              trace := trace s @ [Release i]\<rparr>)"
  by (simp add: task_step_def)

lemma unit_exec:
  assumes "i < length (tasks s)" and "tasks s ! i = Created" and "0 < semaphore s"
    and "invoke (choose_call d1) (now d1) (reply d2) (now d2) = Inr r"
  shows "\<exists>s'. exec [(i, d1), (i, d2), (i, d2), (i, d2)] s = Some s'
           \<and> tasks s' = (tasks s)[i := Done] \<and> semaphore s' = semaphore s
           \<and> results s' = results s @ [r]"
proof -
  define a where "a = enter i d1 s"
  define b where "b = a\<lparr>tasks := (tasks a)[i := Got r]\<rparr>"
  define c where "c = b\<lparr>results := results b @ [r], tasks := (tasks b)[i := Appended],
                        trace := trace b @ [Append i r]\<rparr>"
  define e where "e = c\<lparr>semaphore := semaphore c + 1, tasks := (tasks c)[i := Done],
                        trace := trace c @ [Release i]\<rparr>"
  have 1: "task_step i d1 s = Some a"
    unfolding a_def using assms(1-3) by (rule step_enter)
  have 2: "task_step i d2 a = Some b"
    unfolding b_def using assms(1,4) by (intro step_got) (simp_all add: a_def enter_fields)
  have 3: "task_step i d2 b = Some c"
    unfolding c_def using assms(1) by (intro step_append) (simp_all add: b_def a_def enter_fields)
  have 4: "task_step i d2 c = Some e"
    unfolding e_def using assms(1)
    by (intro step_release) (simp_all add: c_def b_def a_def enter_fields)
  have "exec [(i, d1), (i, d2), (i, d2), (i, d2)] s = Some e"
    by (simp add: 1 2 3 4)
  moreover have "tasks e = (tasks s)[i := Done]" "semaphore e = semaphore s"
    "results e = results s @ [r]"
    by (simp_all add: e_def c_def b_def a_def enter_fields)
  ultimately show ?thesis by blast
qed

lemma serial_step:
  assumes "k < n"
  shows "(replicate k Done @ replicate (n - k) Created) ! k = Created"
    and "(replicate k Done @ replicate (n - k) Created)[k := Done] =
           replicate (Suc k) Done @ replicate (n - Suc k) Created"
proof -
  from assms obtain m where m: "n - k = Suc m" "n - Suc k = m"
    by (cases "n - k") auto
  show "(replicate k Done @ replicate (n - k) Created) ! k = Created"
    by (simp add: nth_append m)
  show "(replicate k Done @ replicate (n - k) Created)[k := Done] =
           replicate (Suc k) Done @ replicate (n - Suc k) Created"
    by (simp add: list_update_append m replicate_append_same)
qed

lemma serial_exec:
  assumes "tasks s = replicate n Created" and "0 < semaphore s"
    and "invoke (choose_call d1) (now d1) (reply d2) (now d2) = Inr r"
  shows "k \<le> n \<Longrightarrow>
         \<exists>s'. exec (serial k d1 d2) s = Some s'
           \<and> tasks s' = replicate k Done @ replicate (n - k) Created
           \<and> semaphore s' = semaphore s \<and> results s' = results s @ replicate k r"
proof (induction k)
  case 0
  then show ?case using assms(1) by simp
next
  case (Suc k)
  then obtain s1 where s1: "exec (serial k d1 d2) s = Some s1"
    "tasks s1 = replicate k Done @ replicate (n - k) Created"
    "semaphore s1 = semaphore s" "results s1 = results s @ replicate k r"
    by auto
  from Suc.prems have k: "k < n" by simp
  have "k < length (tasks s1)" "tasks s1 ! k = Created" "0 < semaphore s1"
    using k s1 assms(2) serial_step(1) [OF k] by simp_all
  from unit_exec [OF this assms(3)] obtain s2 where
    s2: "exec [(k, d1), (k, d2), (k, d2), (k, d2)] s1 = Some s2"
    "tasks s2 = (tasks s1)[k := Done]" "semaphore s2 = semaphore s1"
    "results s2 = results s1 @ [r]"
    by blast
  have "exec (serial (Suc k) d1 d2) s = Some s2"
    using s1(1) s2(1) by (simp add: exec_append del: exec.simps)
  moreover have "tasks s2 = replicate (Suc k) Done @ replicate (n - Suc k) Created"
    using s2(2) s1(2) serial_step(2) [OF k] by simp
  moreover have "results s2 = results s @ replicate (Suc k) r"
    using s2(4) s1(4) by (simp add: replicate_append_same)
  ultimately show ?case using s2(3) s1(3) by simp
qed

lemma serial_gather:
  assumes "0 < c" and "0 \<le> n"
  shows "\<exists>s'. gather None (serial (nat n) (draw_at 1) (draw_at 2))
                (create_tasks n c (clear_results name self)) = Some (None, s')"
proof -
  let ?s = "create_tasks n c (clear_results name self)"
  have inv: "invoke (choose_call (draw_at 1)) (now (draw_at 1)) (reply (draw_at 2))
               (now (draw_at 2)) = Inr (created 1000)"
    by (simp add: choose_draw_at draw_at_fields create_product_201)
  have "tasks ?s = replicate (nat n) Created" "0 < semaphore ?s"
    using assms(1) by (simp_all add: create_tasks_def)
  from serial_exec [OF this inv, of "nat n"] obtain s' where
    s': "exec (serial (nat n) (draw_at 1) (draw_at 2)) ?s = Some s'"
    "tasks s' = replicate (nat n) Done @ replicate (nat n - nat n) Created"
    by auto
  have "list_all (\<lambda>p. p = Done) (tasks s')"
    using s'(2) by (simp add: list_all_iff)
  from exec_gather [OF s'(1) this] show ?thesis by blast
qed

lemma run_scenario_can_return:
  assumes "0 < c" and "0 < n" and "t1 \<noteq> t0"
  shows "\<exists>self'. run_scenario name n c t0 (serial (nat n) (draw_at 1) (draw_at 2)) t1 self =
           Some (None, self')"
proof -
  from serial_gather [of c n name self] assms obtain s' where
    "gather None (serial (nat n) (draw_at 1) (draw_at 2))
       (create_tasks n c (clear_results name self)) = Some (None, s')"
    by auto
  from run_scenario_ok [OF this, of t1 t0] assms show ?thesis by simp
qed

lemma serial_world_run:
  assumes "0 < c" and "0 < n"
  shows "\<exists>self'. run_scenario name (int n) c (started (serial_world n))
           (schedule (serial_world n)) (ended (serial_world n)) self = Some (None, self')"
  using run_scenario_can_return [of c "int n" 1 0 name self] assms
  by (simp add: serial_world_def)

section \<open>The sequencer: results\<close>

lemma update_first_of_rest:
  "0 < m \<Longrightarrow> (xs @ replicate m x)[length xs := y] = xs @ y # replicate (m - 1) x"
  by (cases m) (simp_all add: list_update_append)

lemma nth_first_of_rest: "0 < m \<Longrightarrow> (xs @ replicate m x) ! length xs = x"
  by (cases m) (simp_all add: nth_append)

lemma first_steps_add:
  "first_steps j (a + b) d = first_steps j a d @ first_steps (j + a) b d"
proof -
  have "[j..<j + (a + b)] = [j..<j + a] @ [j + a..<j + a + b]"
    using upt_add_eq_append [of j "j + a" b] by (simp only: add.assoc le_add1)
  then show ?thesis by (simp only: first_steps_def map_append)
qed

lemma first_steps_Suc: "first_steps j (Suc k) d = first_steps j k d @ [(j + k, d)]"
  by (simp add: first_steps_def)

lemma first_steps_one: "first_steps j 1 d = [(j, d)]"
  by (simp add: first_steps_def)

lemma enter_steps:
  assumes "session s = Some False"
  shows "tasks s = replicate j (InFlight (choose_call d) (now d)) @ replicate m Created \<Longrightarrow>
         k \<le> m \<Longrightarrow> int k \<le> semaphore s \<Longrightarrow>
         exec (first_steps j k d) s =
           Some (s\<lparr>semaphore := semaphore s - int k,
                   tasks := replicate (j + k) (InFlight (choose_call d) (now d))
                              @ replicate (m - k) Created,
                   trace := trace s @ map Acquire [j..<j + k]\<rparr>)"
proof (induction k)
  case 0
  then show ?case by (simp add: first_steps_def)
next
  case (Suc k)
  let ?I = "InFlight (choose_call d) (now d)"
  let ?s = "s\<lparr>semaphore := semaphore s - int k,
               tasks := replicate (j + k) ?I @ replicate (m - k) Created,
               trace := trace s @ map Acquire [j..<j + k]\<rparr>"
  have ih: "exec (first_steps j k d) s = Some ?s"
    using Suc by simp
  have mk: "0 < m - k" using Suc.prems(2) by simp
  have nth: "tasks ?s ! (j + k) = Created"
    using nth_first_of_rest [OF mk, of "replicate (j + k) ?I" Created] by simp
  have upd: "(tasks ?s)[j + k := ?I] = replicate (j + Suc k) ?I @ replicate (m - Suc k) Created"
    using update_first_of_rest [OF mk, of "replicate (j + k) ?I" Created ?I]
    by (simp add: replicate_append_same)
  have step: "task_step (j + k) d ?s =
      Some (s\<lparr>semaphore := semaphore s - int (Suc k),
              tasks := replicate (j + Suc k) ?I @ replicate (m - Suc k) Created,
              trace := trace s @ map Acquire [j..<j + Suc k]\<rparr>)"
    using Suc.prems(2,3) assms mk nth upd
    by (simp add: task_step_def enter_def get_session_def)
  show ?case
    by (simp only: first_steps_Suc exec_append ih option.case exec.simps step)
qed

lemma wait_steps:
  "tasks s = xs @ replicate m Created \<Longrightarrow> k \<le> m \<Longrightarrow> semaphore s \<le> 0 \<Longrightarrow>
   exec (first_steps (length xs) k d) s =
     Some (s\<lparr>tasks := xs @ replicate k Waiting @ replicate (m - k) Created\<rparr>)"
proof (induction k)
  case 0
  then show ?case by (simp add: first_steps_def)
next
  case (Suc k)
  let ?s = "s\<lparr>tasks := xs @ replicate k Waiting @ replicate (m - k) Created\<rparr>"
  have ih: "exec (first_steps (length xs) k d) s = Some ?s"
    using Suc by simp
  have mk: "0 < m - k" using Suc.prems(2) by simp
  have nth: "tasks ?s ! (length xs + k) = Created"
    using nth_first_of_rest [OF mk, of "xs @ replicate k Waiting" Created] by simp
  have upd: "(tasks ?s)[length xs + k := Waiting] =
      xs @ replicate (Suc k) Waiting @ replicate (m - Suc k) Created"
    using update_first_of_rest [OF mk, of "xs @ replicate k Waiting" Created Waiting]
    by (simp add: replicate_append_same)
  have step: "task_step (length xs + k) d ?s =
      Some (s\<lparr>tasks := xs @ replicate (Suc k) Waiting @ replicate (m - Suc k) Created\<rparr>)"
    using Suc.prems(2,3) mk nth upd
    by (simp add: task_step_def)
  show ?case
    by (simp only: first_steps_Suc exec_append ih option.case exec.simps step)
qed

lemma exec_gather_raises:
  "exec sched s = Some s' \<Longrightarrow> raised = failure (tasks s) \<Longrightarrow>
   Failed e \<in> set (tasks s') \<Longrightarrow> (\<forall>x. Failed x \<in> set (tasks s') \<longrightarrow> x = e) \<Longrightarrow>
   gather raised sched s = Some (Some e, s')"
proof (induction sched arbitrary: s raised)
  case Nil
  from Nil(1) have eq: "s' = s" by simp
  from Nil(3) have "failure (tasks s) \<noteq> None" unfolding eq failure_None by blast
  then obtain x where x: "failure (tasks s) = Some x" by blast
  from failure_Some [OF x] Nil(4) have "x = e" unfolding eq by blast
  with x Nil(2) have "raised = Some e" by simp
  then show ?case unfolding eq by simp
next
  case (Cons a sched)
  obtain i d where a: "a = (i, d)" by (cases a)
  from Cons.prems(1) obtain s1 where s1: "task_step i d s = Some s1" "exec sched s1 = Some s'"
    by (auto simp: a split: option.splits)
  have late: "\<And>x. Failed x \<in> set (tasks s1) \<Longrightarrow> x = e"
    using exec_failed [OF s1(2)] Cons.prems(4) by blast
  have r1: "(if raised = None then failure (tasks s1) else raised) = failure (tasks s1)"
  proof (cases raised)
    case None
    then show ?thesis by simp
  next
    case (Some x)
    with Cons.prems(2) have "failure (tasks s) = Some x" by simp
    then have "Failed x \<in> set (tasks s)" by (rule failure_Some)
    from task_step_failed [OF s1(1) this] have in1: "Failed x \<in> set (tasks s1)" .
    then have "x = e" by (rule late)
    from in1 have "failure (tasks s1) \<noteq> None" unfolding failure_None by blast
    then obtain y where y: "failure (tasks s1) = Some y" by blast
    from late [OF failure_Some [OF y]] have "y = e" .
    show ?thesis unfolding Some y \<open>x = e\<close> \<open>y = e\<close> by simp
  qed
  have nd: "\<not> (raised = None \<and> list_all (\<lambda>p. p = Done) (tasks s))"
    using task_step_not_done [OF s1(1)] by blast
  have "gather raised (a # sched) s =
          gather (if raised = None then failure (tasks s1) else raised) sched s1"
    unfolding a gather.simps by (simp only: nd if_False s1(1) option.case)
  also have "\<dots> = gather (failure (tasks s1)) sched s1"
    by (simp only: r1)
  also have "\<dots> = Some (Some e, s')"
    using Cons.IH [OF s1(2) refl Cons.prems(3,4)] .
  finally show ?case .
qed

lemma failure_replicate: "failure (replicate n Created) = None"
  by (induction n) simp_all

lemma cancelled_fields:
  "now cancelled_draw = 2" "reply cancelled_draw = Raises CancelledError"
  by (simp_all add: cancelled_draw_def)

lemma create_product_cancelled:
  "create_product tenant t0 (Raises CancelledError) t = Inl CancelledError"
  by (simp add: create_product_def)

lemma nth_after: "length xs = n \<Longrightarrow> 0 < m \<Longrightarrow> (xs @ replicate m x) ! n = x"
  using nth_first_of_rest [of m xs x] by simp

lemma update_after:
  "length xs = n \<Longrightarrow> 0 < m \<Longrightarrow> (xs @ replicate m x)[n := y] = xs @ y # replicate (m - 1) x"
  using update_first_of_rest [of m xs x y] by simp

lemma leak_first_steps:
  "first_steps 0 100 d = first_steps 0 1 d @ first_steps 1 9 d @ first_steps 10 90 d"
proof -
  have "first_steps 0 (1 + (9 + 90)) d =
          first_steps 0 1 d @ first_steps (0 + 1) 9 d @ first_steps (0 + 1 + 9) 90 d"
    by (simp only: first_steps_add)
  then show ?thesis by simp
qed

lemma leak_round:
  "exec (first_steps 0 100 (draw_at 1))
     (create_tasks 100 10 (clear_results ''Low Concurrency Test'' new_runner)) =
   Some \<lparr>results = [], session = Some False, semaphore = 0,
         tasks = replicate 10 (InFlight (Create_product ''company-a'') 1)
                   @ replicate 90 Waiting,
         trace = map Acquire [0..<10],
         log = [ScenarioStarted ''Low Concurrency Test'', SessionCreated]\<rparr>"
proof -
  let ?I = "InFlight (Create_product ''company-a'') 1"
  let ?log = "[ScenarioStarted ''Low Concurrency Test'', SessionCreated]"
  let ?s1 = "\<lparr>results = [], session = Some False, semaphore = 9,
              tasks = replicate 1 ?I @ replicate 99 Created,
              trace = [Acquire 0], log = ?log\<rparr>"
  let ?s2 = "\<lparr>results = [], session = Some False, semaphore = 0,
              tasks = replicate 10 ?I @ replicate 90 Created,
              trace = map Acquire [0..<10], log = ?log\<rparr>"
  let ?s3 = "\<lparr>results = [], session = Some False, semaphore = 0,
              tasks = replicate 10 ?I @ replicate 90 Waiting,
              trace = map Acquire [0..<10], log = ?log\<rparr>"
  have u0: "(replicate 100 Created)[0 := ?I] = ?I # replicate 99 Created"
    using update_after [of "[]" 0 100 Created ?I] by simp
  have e1: "exec (first_steps 0 1 (draw_at 1))
      (create_tasks 100 10 (clear_results ''Low Concurrency Test'' new_runner)) = Some ?s1"
    unfolding first_steps_one
    by (simp add: task_step_def enter_def get_session_def choose_draw_at
          draw_at_fields create_tasks_def clear_results_def new_runner_def u0)
  have e2: "exec (first_steps 1 9 (draw_at 1)) ?s1 = Some ?s2"
    using enter_steps [of ?s1 1 "draw_at 1" 99 9] upt_conv_Cons [of 0 10]
    by (simp add: choose_draw_at draw_at_fields del: upt_rec_numeral)
  have e3: "exec (first_steps 10 90 (draw_at 1)) ?s2 = Some ?s3"
    using wait_steps [of ?s2 "replicate 10 ?I" 90 90 "draw_at 1"]
    by simp
  show ?thesis
    by (simp only: leak_first_steps exec_append e1 e2 e3 option.case)
qed


lemma leak_exec:
  "exec leak_schedule
     (create_tasks 100 10 (clear_results ''Low Concurrency Test'' new_runner)) =
   Some \<lparr>results = [], session = Some False, semaphore = 0,
         tasks = Failed CancelledError
                   # replicate 9 (InFlight (Create_product ''company-a'') 1)
                   @ InFlight (Create_product ''company-a'') 2 # replicate 89 Waiting,
         trace = map Acquire [0..<10] @ [Release 0, Acquire 10],
         log = [ScenarioStarted ''Low Concurrency Test'', SessionCreated]\<rparr>"
proof -
  let ?I = "InFlight (Create_product ''company-a'') 1"
  let ?I2 = "InFlight (Create_product ''company-a'') 2"
  let ?F = "Failed CancelledError"
  have ten: "replicate 10 ?I = ?I # replicate 9 ?I"
    by (simp add: numeral_eq_Suc)
  have n10: "(?F # replicate 9 ?I @ replicate 90 Waiting) ! 10 = Waiting"
    using nth_after [of "?F # replicate 9 ?I" 10 90 Waiting] by simp
  have u10: "(?F # replicate 9 ?I @ replicate 90 Waiting)[10 := ?I2] =
               ?F # replicate 9 ?I @ ?I2 # replicate 89 Waiting"
    using update_after [of "?F # replicate 9 ?I" 10 90 Waiting ?I2] by simp
  have n9: "(replicate 9 ?I @ replicate 90 Waiting) ! 9 = Waiting"
    using nth_after [of "replicate 9 ?I" 9 90 Waiting] by simp
  have u9: "(replicate 9 ?I @ replicate 90 Waiting)[9 := ?I2] =
               replicate 9 ?I @ ?I2 # replicate 89 Waiting"
    using update_after [of "replicate 9 ?I" 9 90 Waiting ?I2] by simp
  have "exec [(0, cancelled_draw), (10, draw_at 2)]
      \<lparr>results = [], session = Some False, semaphore = 0,
       tasks = replicate 10 ?I @ replicate 90 Waiting,
       trace = map Acquire [0..<10],
       log = [ScenarioStarted ''Low Concurrency Test'', SessionCreated]\<rparr> =
    Some \<lparr>results = [], session = Some False, semaphore = 0,
         tasks = ?F # replicate 9 ?I @ ?I2 # replicate 89 Waiting,
         trace = map Acquire [0..<10] @ [Release 0, Acquire 10],
         log = [ScenarioStarted ''Low Concurrency Test'', SessionCreated]\<rparr>"
    unfolding ten
    by (simp add: task_step_def enter_def get_session_def choose_draw_at draw_at_fields
          cancelled_fields create_product_cancelled n10 u10 n9 u9 del: upt_rec_numeral)
  then show ?thesis
    by (simp only: leak_schedule_def exec_append leak_round option.case)
qed

lemma leak_run:
  "run_scenario ''Low Concurrency Test'' 100 10 0 leak_schedule 3 new_runner =
   Some (Some CancelledError,
     \<lparr>results = [], session = Some False, semaphore = 0,
      tasks = Failed CancelledError
                # replicate 9 (InFlight (Create_product ''company-a'') 1)
                @ InFlight (Create_product ''company-a'') 2 # replicate 89 Waiting,
      trace = map Acquire [0..<10] @ [Release 0, Acquire 10],
      log = [ScenarioStarted ''Low Concurrency Test'', SessionCreated]\<rparr>)"
proof -
  have "gather None leak_schedule
     (create_tasks 100 10 (clear_results ''Low Concurrency Test'' new_runner)) =
   Some (Some CancelledError,
     \<lparr>results = [], session = Some False, semaphore = 0,
      tasks = Failed CancelledError
                # replicate 9 (InFlight (Create_product ''company-a'') 1)
                @ InFlight (Create_product ''company-a'') 2 # replicate 89 Waiting,
      trace = map Acquire [0..<10] @ [Release 0, Acquire 10],
      log = [ScenarioStarted ''Low Concurrency Test'', SessionCreated]\<rparr>)"
    by (rule exec_gather_raises [OF leak_exec])
       (auto simp: create_tasks_def failure_replicate)
  then show ?thesis
    by (simp add: run_scenario_def Let_def)
qed

lemma leak_close:
  "close_session leak_closing
     \<lparr>results = [], session = Some False, semaphore = 0,
      tasks = Failed CancelledError
                # replicate 9 (InFlight (Create_product ''company-a'') 1)
                @ InFlight (Create_product ''company-a'') 2 # replicate 89 Waiting,
      trace = map Acquire [0..<10] @ [Release 0, Acquire 10],
      log = [ScenarioStarted ''Low Concurrency Test'', SessionCreated]\<rparr> =
   Some \<lparr>results = [created 2000], session = Some False, semaphore = 0,
      tasks = Failed CancelledError # Done
                # replicate 8 (InFlight (Create_product ''company-a'') 1)
                @ InFlight (Create_product ''company-a'') 2
                # InFlight (Create_product ''company-a'') 3 # replicate 88 Waiting,
      trace = map Acquire [0..<10]
                @ [Release 0, Acquire 10, Append 1 (created 2000), Release 1, Acquire 11],
      log = [ScenarioStarted ''Low Concurrency Test'', SessionCreated, SessionClosed,
             SessionCreated]\<rparr>"
proof -
  let ?I = "InFlight (Create_product ''company-a'') 1"
  let ?I2 = "InFlight (Create_product ''company-a'') 2"
  let ?I3 = "InFlight (Create_product ''company-a'') 3"
  let ?F = "Failed CancelledError"
  have nine: "replicate 9 ?I = ?I # replicate 8 ?I"
    by (simp add: numeral_eq_Suc)
  have n11: "(?F # Done # replicate 8 ?I @ ?I2 # replicate 89 Waiting) ! 11 = Waiting"
    using nth_after [of "?F # Done # replicate 8 ?I @ [?I2]" 11 89 Waiting] by simp
  have u11: "(?F # Done # replicate 8 ?I @ ?I2 # replicate 89 Waiting)[11 := ?I3] =
               ?F # Done # replicate 8 ?I @ ?I2 # ?I3 # replicate 88 Waiting"
    using update_after [of "?F # Done # replicate 8 ?I @ [?I2]" 11 89 Waiting ?I3] by simp
  have n10: "(Done # replicate 8 ?I @ ?I2 # replicate 89 Waiting) ! 10 = Waiting"
    using nth_after [of "Done # replicate 8 ?I @ [?I2]" 10 89 Waiting] by simp
  have u10: "(Done # replicate 8 ?I @ ?I2 # replicate 89 Waiting)[10 := ?I3] =
               Done # replicate 8 ?I @ ?I2 # ?I3 # replicate 88 Waiting"
    using update_after [of "Done # replicate 8 ?I @ [?I2]" 10 89 Waiting ?I3] by simp
  have n9: "(replicate 8 ?I @ ?I2 # replicate 89 Waiting) ! 9 = Waiting"
    using nth_after [of "replicate 8 ?I @ [?I2]" 9 89 Waiting] by simp
  have u9: "(replicate 8 ?I @ ?I2 # replicate 89 Waiting)[9 := ?I3] =
               replicate 8 ?I @ ?I2 # ?I3 # replicate 88 Waiting"
    using update_after [of "replicate 8 ?I @ [?I2]" 9 89 Waiting ?I3] by simp
  show ?thesis
    unfolding nine
    by (simp add: close_session_def leak_closing_def task_step_def enter_def get_session_def
          choose_draw_at draw_at_fields create_product_201 n11 u11 n10 u10 n9 u9
          del: upt_rec_numeral)
qed

text \<open>
  C9. The claim fails on the code in the run described with \<open>leak_schedule\<close>: the first
  scenario raises \<^verbatim>\<open>CancelledError\<close>, the \<^verbatim>\<open>finally\<close> block closes the session, and while
  the close is awaited unit 11 gets a slot, finds the session closed and creates a second
  one (lines 187 to 189), which nothing closes. \<^verbatim>\<open>main\<close> ends with a session open: two
  sessions were created and one was closed.
\<close>

theorem second_session_left_open:
  "map_option fst (main leak_world idle_world idle_world idle_world leak_closing) =
     Some (Some CancelledError)
   \<and> map_option (session \<circ> snd)
        (main leak_world idle_world idle_world idle_world leak_closing) = Some (Some False)
   \<and> map_option (log \<circ> snd)
        (main leak_world idle_world idle_world idle_world leak_closing) =
     Some [ScenarioStarted ''Low Concurrency Test'', SessionCreated, SessionClosed,
           SessionCreated]
   \<and> map_option (trace \<circ> snd)
        (main leak_world idle_world idle_world idle_world leak_closing) =
     Some (map Acquire [0..<10]
            @ [Release 0, Acquire 10, Append 1 (created 2000), Release 1, Acquire 11])"
  unfolding main_def Let_def
  by (simp add: leak_world_def leak_run and_then_def leak_close del: upt_rec_numeral)


lemma run_scenario_done:
  assumes "run_scenario name n c t0 sched t1 self = Some (None, self')"
  shows "list_all (\<lambda>p. p = Done) (tasks self')"
proof -
  from assms obtain s2 where
    "gather None sched (create_tasks n c (clear_results name self)) = Some (None, s2)"
    and "tasks self' = tasks s2"
    by (rule run_scenario_returns)
  then show ?thesis using gather_returns by simp
qed

lemma exec_all_done:
  assumes "list_all (\<lambda>p. p = Done) (tasks s)" and "exec sched s = Some s'"
  shows "sched = [] \<and> s' = s"
proof (cases sched)
  case Nil
  with assms(2) show ?thesis by simp
next
  case (Cons a rest)
  obtain i d where "a = (i, d)" by (cases a)
  with Cons assms(2) obtain s1 where "task_step i d s = Some s1"
    by (auto split: option.splits)
  from task_step_not_done [OF this] assms(1) show ?thesis by simp
qed

lemma task_step_log:
  assumes "task_step i d s = Some s'"
  shows "count_list (log s') SessionClosed = count_list (log s) SessionClosed
       \<and> scenario_events (log s') = scenario_events (log s)"
  using assms
  by (cases rule: task_step_cases) (auto simp: enter_fields scenario_events_def)

lemma exec_log:
  assumes "exec sched s = Some s'"
  shows "count_list (log s') SessionClosed = count_list (log s) SessionClosed"
    and "scenario_events (log s') = scenario_events (log s)"
  using exec_invariant [OF assms, where P = "\<lambda>x.
      count_list (log x) SessionClosed = count_list (log s) SessionClosed
      \<and> scenario_events (log x) = scenario_events (log s)"]
    task_step_log by simp_all

lemma main_body:
  assumes "main w1 w2 w3 w4 closing = Some (e, r)"
  obtains s where "close_session closing s = Some r"
    and "session_inv s" and "session s = Some False"
    and "e = None \<longrightarrow> list_all (\<lambda>p. p = Done) (tasks s)"
    and "prefix (scenario_events (log s)) all_scenario_events"
    and "e = None \<longrightarrow> scenario_events (log s) = all_scenario_events"
proof -
  let ?r1 = "run_scenario ''Low Concurrency Test'' 100 10 (started w1) (schedule w1) (ended w1)"
  let ?r2 = "run_scenario ''Medium Concurrency Test'' 500 50 (started w2) (schedule w2) (ended w2)"
  let ?r3 = "run_scenario ''High Concurrency Test'' 1000 100 (started w3) (schedule w3) (ended w3)"
  let ?r4 = "run_scenario ''Stress Test'' 2000 200 (started w4) (schedule w4) (ended w4)"
  from assms obtain s where r: "close_session closing s = Some r"
    and body: "and_then (?r1 new_runner) (\<lambda>x. and_then (?r2 x) (\<lambda>x. and_then (?r3 x) ?r4))
                 = Some (e, s)"
    by (auto simp: main_def Let_def split: option.splits)
  from body show ?thesis
  proof (cases rule: and_then_cases)
    case 1
    note a = run_scenario_session [OF 1(1) new_runner_session(1)]
    show ?thesis
      using a 1(2) r by (intro that [of s]) (auto simp: new_runner_session all_scenario_events_def)
  next
    case (2 s1)
    note a = run_scenario_session [OF 2(1) new_runner_session(1)]
    have a1: "session_inv s1" using a by simp
    have a3: "scenario_events (log s1) =
        [ScenarioStarted ''Low Concurrency Test'', ResultsPrinted ''Low Concurrency Test'']"
      using a(3) by (simp add: new_runner_session)
    from 2(2) show ?thesis
    proof (cases rule: and_then_cases)
      case 1
      note b = run_scenario_session [OF 1(1) a1]
      show ?thesis
        using b 1(2) r by (intro that [of s]) (auto simp: a3 all_scenario_events_def)
    next
      case (2 s2)
      note b = run_scenario_session [OF 2(1) a1]
      have b1: "session_inv s2" using b by simp
      have b3: "scenario_events (log s2) =
        [ScenarioStarted ''Low Concurrency Test'', ResultsPrinted ''Low Concurrency Test'',
         ScenarioStarted ''Medium Concurrency Test'', ResultsPrinted ''Medium Concurrency Test'']"
        using b(3) by (simp add: a3)
      from 2(2) show ?thesis
      proof (cases rule: and_then_cases)
        case 1
        note c = run_scenario_session [OF 1(1) b1]
        show ?thesis
          using c 1(2) r by (intro that [of s]) (auto simp: b3 all_scenario_events_def)
      next
        case (2 s3)
        note c = run_scenario_session [OF 2(1) b1]
        have c1: "session_inv s3" using c by simp
        have c3: "scenario_events (log s3) =
          [ScenarioStarted ''Low Concurrency Test'', ResultsPrinted ''Low Concurrency Test'',
           ScenarioStarted ''Medium Concurrency Test'', ResultsPrinted ''Medium Concurrency Test'',
           ScenarioStarted ''High Concurrency Test'', ResultsPrinted ''High Concurrency Test'']"
          using c(3) by (simp add: b3)
        note d = run_scenario_session [OF 2(2) c1]
        show ?thesis
          using d r run_scenario_done [of _ _ _ _ _ _ s3 s] 2(2) by (intro that [of s]) (auto simp: c3 all_scenario_events_def)
      qed
    qed
  qed
qed


text \<open>
  What holds in every complete run of \<^verbatim>\<open>main\<close>: the session is closed exactly once, and the
  scenarios run in the order of the list, each one started only after the results of the
  one before were printed. If nothing was raised, all four scenarios ran, only one session
  was ever created, it is closed in the end, and closing it was the last thing that
  happened.
\<close>

lemma main_closes_once:
  assumes "main w1 w2 w3 w4 closing = Some (e, r)"
  shows "count_list (log r) SessionClosed = 1"
    and "prefix (scenario_events (log r)) all_scenario_events"
    and "e = None \<Longrightarrow> scenario_events (log r) = all_scenario_events"
    and "e = None \<Longrightarrow> session r = Some True \<and> count_list (log r) SessionCreated = 1
           \<and> last (log r) = SessionClosed \<and> closing = []"
proof -
  from assms obtain s where s: "close_session closing s = Some r"
    "session_inv s" "session s = Some False"
    "e = None \<longrightarrow> list_all (\<lambda>p. p = Done) (tasks s)"
    "prefix (scenario_events (log s)) all_scenario_events"
    "e = None \<longrightarrow> scenario_events (log s) = all_scenario_events"
    by (rule main_body)
  let ?c = "s\<lparr>session := Some True, log := log s @ [SessionClosed]\<rparr>"
  from s(1,3) have ex: "exec closing ?c = Some r" by (simp add: close_session_def)
  have c: "count_list (log ?c) SessionClosed = 1" "scenario_events (log ?c) = scenario_events (log s)"
    using s(2) by (simp_all add: session_inv_def scenario_events_def)
  from exec_log [OF ex] c s(5,6)
  show "count_list (log r) SessionClosed = 1"
    and "prefix (scenario_events (log r)) all_scenario_events"
    and "e = None \<Longrightarrow> scenario_events (log r) = all_scenario_events"
    by simp_all
  assume "e = None"
  with s(4) have "list_all (\<lambda>p. p = Done) (tasks ?c)" by simp
  from exec_all_done [OF this ex] s(2,3)
  show "session r = Some True \<and> count_list (log r) SessionCreated = 1
           \<and> last (log r) = SessionClosed \<and> closing = []"
    by (auto simp: session_inv_def)
qed

lemma main_can_complete:
  "\<exists>r. main (serial_world 100) (serial_world 500) (serial_world 1000) (serial_world 2000) [] =
          Some (None, r)"
proof -
  obtain s1 where 1: "run_scenario ''Low Concurrency Test'' 100 10 (started (serial_world 100))
      (schedule (serial_world 100)) (ended (serial_world 100)) new_runner = Some (None, s1)"
    using serial_world_run [of 10 100 "''Low Concurrency Test''" new_runner] by auto
  obtain s2 where 2: "run_scenario ''Medium Concurrency Test'' 500 50 (started (serial_world 500))
      (schedule (serial_world 500)) (ended (serial_world 500)) s1 = Some (None, s2)"
    using serial_world_run [of 50 500 "''Medium Concurrency Test''" s1] by auto
  obtain s3 where 3: "run_scenario ''High Concurrency Test'' 1000 100
      (started (serial_world 1000)) (schedule (serial_world 1000)) (ended (serial_world 1000)) s2
        = Some (None, s3)"
    using serial_world_run [of 100 1000 "''High Concurrency Test''" s2] by auto
  obtain s4 where 4: "run_scenario ''Stress Test'' 2000 200
      (started (serial_world 2000)) (schedule (serial_world 2000)) (ended (serial_world 2000)) s3
        = Some (None, s4)"
    using serial_world_run [of 200 2000 "''Stress Test''" s3] by auto
  show ?thesis
    unfolding main_def Let_def by (simp add: 1 2 3 4 and_then_def close_session_def)
qed

end
